theory Spec2Isabelle
  imports Main "HOL-Library.Multiset" "HOL-Library.Char_ord" "HOL-Library.List_Lexorder"
begin

section \<open>Data model of \<^verbatim>\<open>final_results.json\<close>\<close>

text \<open>
  The input file is a JSON array of objects with the keys \<^verbatim>\<open>rank\<close>, \<^verbatim>\<open>translator\<close>,
  \<^verbatim>\<open>downloads\<close> and \<^verbatim>\<open>posts\<close>; every post has \<^verbatim>\<open>title\<close>, \<^verbatim>\<open>downloads\<close> and \<^verbatim>\<open>pid\<close>.
  JSON integers are Python's unbounded integers, hence \<^typ>\<open>int\<close>. A pid is a string or
  an integer; the two never compare equal. Strings are byte lists (the UTF-8 encoding),
  whose lexicographic order is the order of Python's code points.
\<close>

datatype pid_value = PidStr string | PidInt int

record PostRecord =
  title :: string
  downloads :: int
  pid :: pid_value

record ResultRecord =
  rank :: int
  translator :: string
  downloads :: int
  posts :: "PostRecord list"

text \<open>One row of the frame built by \<^verbatim>\<open>prepare_data\<close>; the fields are its columns.\<close>

record FlatRow =
  Rank :: int
  Translator :: string
  Total_Downloads :: int
  Post_Title :: string
  Post_Downloads :: int
  PID :: pid_value

section \<open>\<^verbatim>\<open>prepare_data\<close>\<close>

text \<open>
  The dictionary appended to \<^verbatim>\<open>data\<close> in the body of the inner loop (lines 23 to 30);
  \<^verbatim>\<open>total_downloads\<close> is \<^verbatim>\<open>result["downloads"]\<close> (line 21).
\<close>

definition flat_row :: "ResultRecord \<Rightarrow> PostRecord \<Rightarrow> FlatRow" where
  "flat_row result post =
     (let total_downloads = ResultRecord.downloads result
      in \<lparr>FlatRow.Rank = rank result,
          Translator = translator result,
          Total_Downloads = total_downloads,
          Post_Title = title post,
          Post_Downloads = PostRecord.downloads post,
          PID = pid post\<rparr>)"

text \<open>The inner loop \<^verbatim>\<open>for post in result["posts"]: data.append(...)\<close>.\<close>

fun append_posts :: "ResultRecord \<Rightarrow> PostRecord list \<Rightarrow> FlatRow list \<Rightarrow> FlatRow list" where
  "append_posts result [] data = data"
| "append_posts result (post # ps) data = append_posts result ps (data @ [flat_row result post])"

text \<open>The outer loop \<^verbatim>\<open>for result in results\<close>.\<close>

fun append_results :: "ResultRecord list \<Rightarrow> FlatRow list \<Rightarrow> FlatRow list" where
  "append_results [] data = data"
| "append_results (result # rs) data = append_results rs (append_posts result (posts result) data)"

text \<open>
  \<^verbatim>\<open>pd.DataFrame(data)\<close>: the frame is modelled by its list of rows. A frame built from
  the empty list has no columns at all, which the column lookups below account for.
\<close>

definition prepare_data :: "ResultRecord list \<Rightarrow> FlatRow list" where
  "prepare_data results = append_results results []"

text \<open>The rows that precede those of the \<open>i\<close>-th record in the flat table.\<close>

definition rows_before :: "ResultRecord list \<Rightarrow> nat \<Rightarrow> nat" where
  "rows_before results i = sum_list (map (\<lambda>r. length (posts r)) (take i results))"

section \<open>Faults and the calls into the presentation framework\<close>

text \<open>
  The exceptions that can leave \<^verbatim>\<open>main\<close>. A missing file is the only one the program
  catches; a file that is present but is not JSON makes \<^verbatim>\<open>json.load\<close> raise, and streamlit
  raises when it cannot convert a frame for display.
\<close>

datatype fault =
    KeyError string
  | IndexError
  | JSONDecodeError
  | StreamlitDataframeConversionError

text \<open>The frame after \<^verbatim>\<open>groupby("Translator")[["Rank", "Total Downloads"]].max().reset_index()\<close>.\<close>

record GroupRow =
  Translator :: string
  Rank :: int
  Total_Downloads :: int

text \<open>The frame \<^verbatim>\<open>translator_table[["Index", "Rank", "Translator", "Total Downloads"]]\<close>.\<close>

record TableRow =
  Index :: int
  Rank :: int
  Translator :: string
  Total_Downloads :: int

text \<open>The pieces of a string handed to \<^verbatim>\<open>st.write\<close>: literal text and formatted values.\<close>

datatype piece = Lit string | Name string | Num int

datatype chart = Line | Bar

text \<open>The calls into streamlit, each with the data it is given.\<close>

datatype call =
    set_page_config
  | st_title string
  | st_error string
  | sidebar_title string
  | sidebar_text_input string
  | sidebar_selectbox string "string list"
  | sidebar_write string
  | sidebar_dataframe "TableRow list"
  | st_write "piece list"
  | st_metric string int
  | st_plotly_chart chart "FlatRow list"
  | st_dataframe "(int \<times> FlatRow) list"

section \<open>\<^verbatim>\<open>load_results\<close>\<close>

text \<open>What \<^verbatim>\<open>open\<close> and \<^verbatim>\<open>json.load\<close> find at the path \<^verbatim>\<open>final_results.json\<close>.\<close>

datatype file_state = Missing | Malformed | Content "ResultRecord list"

text \<open>
  The result is the list of calls made (the notice of line 13) and either the fault that
  escapes or the value returned.
\<close>

definition load_results :: "file_state \<Rightarrow> call list \<times> (fault + ResultRecord list)" where
  "load_results file =
     (case file of
        Content results \<Rightarrow> ([], Inr results)
      | Malformed \<Rightarrow> ([], Inl JSONDecodeError)
      | Missing \<Rightarrow>
          ([st_error ''Final results file not found. Please run the algorithm first.''],
           Inr []))"

section \<open>The leaderboard (lines 50 to 57 of \<^verbatim>\<open>main\<close>)\<close>

text \<open>
  \<^verbatim>\<open>df.groupby("Translator")\<close>: looking up the column of a frame without columns raises
  \<^verbatim>\<open>KeyError\<close>; otherwise there is one group per distinct name, the groups in ascending
  order of their keys, and \<^verbatim>\<open>max()\<close> takes the maximum of each of the two columns over the
  rows of the group.
\<close>

definition group_keys :: "FlatRow list \<Rightarrow> string list" where
  "group_keys df = sort (remdups (map FlatRow.Translator df))"

definition group_max :: "FlatRow list \<Rightarrow> string \<Rightarrow> GroupRow" where
  "group_max df t =
     (let g = filter (\<lambda>r. FlatRow.Translator r = t) df
      in \<lparr>GroupRow.Translator = t,
          Rank = Max (set (map FlatRow.Rank g)),
          Total_Downloads = Max (set (map FlatRow.Total_Downloads g))\<rparr>)"

definition groupby_max :: "FlatRow list \<Rightarrow> fault + GroupRow list" where
  "groupby_max df =
     (if df = [] then Inl (KeyError ''Translator'')
      else Inr (map (group_max df) (group_keys df)))"

text \<open>
  \<^verbatim>\<open>sort_values("Total Downloads", ascending=False)\<close> is called with the default
  \<^verbatim>\<open>kind="quicksort"\<close>, which promises a permutation of the rows in descending order of
  the key and nothing about rows with equal keys. The sorting routine is therefore a
  parameter \<open>srt\<close> of the model, constrained by \<open>sort_values_spec\<close>; \<open>sort_values\<close> is the
  instance that keeps rows with equal keys in their order (reverse, sort stably in
  ascending order, reverse), used to run the model.
\<close>

definition descending :: "GroupRow list \<Rightarrow> bool" where
  "descending xs =
     sorted_wrt (\<lambda>a b. GroupRow.Total_Downloads a \<ge> GroupRow.Total_Downloads b) xs"

definition sort_values_spec :: "(GroupRow list \<Rightarrow> GroupRow list) \<Rightarrow> bool" where
  "sort_values_spec srt = (\<forall>xs. mset (srt xs) = mset xs \<and> descending (srt xs))"

definition sort_values :: "GroupRow list \<Rightarrow> GroupRow list" where
  "sort_values xs = rev (sort_key GroupRow.Total_Downloads (rev xs))"

text \<open>
  \<^verbatim>\<open>translator_table["Index"] = range(1, len(translator_table) + 1)\<close> followed by the
  selection of the four columns.
\<close>

definition assign_Index :: "GroupRow list \<Rightarrow> TableRow list" where
  "assign_Index rows =
     map (\<lambda>(i, g). \<lparr>Index = i,
                     Rank = GroupRow.Rank g,
                     Translator = GroupRow.Translator g,
                     Total_Downloads = GroupRow.Total_Downloads g\<rparr>)
         (zip (map int [1..<length rows + 1]) rows)"

definition translator_table ::
    "(GroupRow list \<Rightarrow> GroupRow list) \<Rightarrow> FlatRow list \<Rightarrow> fault + TableRow list" where
  "translator_table srt df =
     (case groupby_max df of
        Inl e \<Rightarrow> Inl e
      | Inr groups \<Rightarrow> Inr (assign_Index (srt groups)))"

section \<open>The translator selector (lines 60 to 65 of \<^verbatim>\<open>main\<close>)\<close>

text \<open>
  \<^verbatim>\<open>str.lower\<close>. A string of ASCII characters is lower-cased byte by byte, \<open>A\<close> to \<open>Z\<close>
  becoming \<open>a\<close> to \<open>z\<close>.
\<close>

definition letters :: "(char \<times> char) list" where
  "letters = zip ''ABCDEFGHIJKLMNOPQRSTUVWXYZ'' ''abcdefghijklmnopqrstuvwxyz''"

definition lower_char :: "char \<Rightarrow> char" where
  "lower_char c = (case map_of letters c of Some l \<Rightarrow> l | None \<Rightarrow> c)"

definition is_ascii :: "string \<Rightarrow> bool" where
  "is_ascii s = (\<forall>c \<in> set s. (of_char c :: nat) < 128)"

text \<open>
  Any other string is lower-cased code point by code point. The strings of the model are
  the UTF-8 bytes of the program's strings; \<open>utf8_decode\<close> reads the code points (of one to
  four bytes) and \<open>utf8_encode\<close> writes them back.
\<close>

fun utf8_decode :: "nat list \<Rightarrow> nat list" where
  "utf8_decode [] = []"
| "utf8_decode [b] = [b]"
| "utf8_decode [b, c] =
     (if 192 \<le> b \<and> b < 224 then [(b - 192) * 64 + (c - 128)] else b # utf8_decode [c])"
| "utf8_decode [b, c, d] =
     (if 192 \<le> b \<and> b < 224 then ((b - 192) * 64 + (c - 128)) # utf8_decode [d]
      else if 224 \<le> b \<and> b < 240 then [((b - 224) * 64 + (c - 128)) * 64 + (d - 128)]
      else b # utf8_decode [c, d])"
| "utf8_decode (b # c # d # e # bs) =
     (if 192 \<le> b \<and> b < 224 then ((b - 192) * 64 + (c - 128)) # utf8_decode (d # e # bs)
      else if 224 \<le> b \<and> b < 240
        then (((b - 224) * 64 + (c - 128)) * 64 + (d - 128)) # utf8_decode (e # bs)
      else if 240 \<le> b
        then ((((b - 240) * 64 + (c - 128)) * 64 + (d - 128)) * 64 + (e - 128)) # utf8_decode bs
      else b # utf8_decode (c # d # e # bs))"

definition utf8_encode :: "nat \<Rightarrow> nat list" where
  "utf8_encode p =
     (if p < 128 then [p]
      else if p < 2048 then [192 + p div 64, 128 + p mod 64]
      else if p < 65536 then [224 + p div 4096, 128 + p div 64 mod 64, 128 + p mod 64]
      else [240 + p div 262144, 128 + p div 4096 mod 64, 128 + p div 64 mod 64,
            128 + p mod 64])"

text \<open>
  The rows of the Unicode character database that lower-casing reads: the lower-case
  mapping of a code point (one to three code points) and the properties Cased and
  Case_Ignorable. The database is no part of the program and is a parameter of the model.
\<close>

record ucd =
  ToLowerFull :: "nat \<Rightarrow> nat list"
  IsCased :: "nat \<Rightarrow> bool"
  IsCaseIgnorable :: "nat \<Rightarrow> bool"

text \<open>
  The capital sigma \<open>U+03A3\<close> becomes the final sigma \<open>U+03C2\<close> when a cased letter
  stands before it and none after it, case-ignorable characters skipped on both sides, and
  the small sigma \<open>U+03C3\<close> otherwise. \<open>passed\<close> holds the code points already passed, \<open>rest\<close> those to come.
\<close>

definition final_sigma :: "ucd \<Rightarrow> nat list \<Rightarrow> nat list \<Rightarrow> bool" where
  "final_sigma u passed rest =
     ((case dropWhile (IsCaseIgnorable u) (rev passed) of
         [] \<Rightarrow> False
       | c # _ \<Rightarrow> IsCased u c)
      \<and> (case dropWhile (IsCaseIgnorable u) rest of
            [] \<Rightarrow> True
          | c # _ \<Rightarrow> \<not> IsCased u c))"

fun lower_points :: "ucd \<Rightarrow> nat list \<Rightarrow> nat list \<Rightarrow> nat list" where
  "lower_points u passed [] = []"
| "lower_points u passed (c # rest) =
     (if c = 931 then [if final_sigma u passed rest then 962 else 963]
      else ToLowerFull u c)
     @ lower_points u (passed @ [c]) rest"

definition lower :: "ucd \<Rightarrow> string \<Rightarrow> string" where
  "lower u s =
     (if is_ascii s then map lower_char s
      else map char_of
             (concat (map utf8_encode (lower_points u [] (utf8_decode (map of_char s))))))"

text \<open>Python's \<^verbatim>\<open>needle in hay\<close> on strings: \<open>needle\<close> occurs in \<open>hay\<close> as a contiguous run.\<close>

fun starts_with :: "string \<Rightarrow> string \<Rightarrow> bool" where
  "starts_with [] hay = True"
| "starts_with (c # needle) [] = False"
| "starts_with (c # needle) (d # hay) = (c = d \<and> starts_with needle hay)"

fun str_in :: "string \<Rightarrow> string \<Rightarrow> bool" where
  "str_in needle [] = (needle = [])"
| "str_in needle (d # hay) = (starts_with needle (d # hay) \<or> str_in needle hay)"

definition matching_translators :: "ucd \<Rightarrow> string \<Rightarrow> string list \<Rightarrow> string list" where
  "matching_translators u search_term translators =
     filter (\<lambda>t. str_in (lower u search_term) (lower u t)) translators"

text \<open>The label and the options of the one \<^verbatim>\<open>selectbox\<close> that is shown.\<close>

definition selector :: "ucd \<Rightarrow> string \<Rightarrow> string list \<Rightarrow> string \<times> string list" where
  "selector u search_term translators =
     (if search_term \<noteq> []
      then (''Matching Translators'', matching_translators u search_term translators)
      else (''Select a Translator'', translators))"

text \<open>
  \<^verbatim>\<open>st.sidebar.selectbox\<close> returns the option the user picked, the first one when nothing
  was picked, and \<^verbatim>\<open>None\<close> when there are no options. \<open>choice\<close> is the position picked.
\<close>

definition selectbox :: "string list \<Rightarrow> nat \<Rightarrow> string option" where
  "selectbox options choice =
     (case options of
        [] \<Rightarrow> None
      | first # _ \<Rightarrow> Some (if choice < length options then options ! choice else first))"

section \<open>The global insights (lines 138 to 141 of \<^verbatim>\<open>main\<close>)\<close>

text \<open>
  \<^verbatim>\<open>drop_duplicates(subset=["PID"])\<close> keeps, of the rows with one pid, the first;
  \<open>seen\<close> holds the pids of the rows passed so far.
\<close>

fun drop_duplicates :: "pid_value list \<Rightarrow> FlatRow list \<Rightarrow> FlatRow list" where
  "drop_duplicates seen [] = []"
| "drop_duplicates seen (r # df) =
     (if PID r \<in> set seen then drop_duplicates seen df
      else r # drop_duplicates (PID r # seen) df)"

text \<open>
  \<^verbatim>\<open>Series.sum\<close> adds in the arithmetic of the column's dtype. A column whose integers all
  lie in the int64 range is an int64 column, and its sum wraps around modulo \<open>2^64\<close>. What
  pandas makes of a column with integers beyond that range (a uint64 or an object column)
  is left to the summing routine \<open>sm\<close>, a parameter of the model that is given the whole
  column and the values to add and is constrained by \<open>sum_spec\<close>; \<open>column_sum\<close> is the
  instance used to run the model.
\<close>

definition int64 :: "int \<Rightarrow> bool" where
  "int64 v = (- (2 ^ 63) \<le> v \<and> v < 2 ^ 63)"

definition wrap64 :: "int \<Rightarrow> int" where
  "wrap64 v = (v + 2 ^ 63) mod 2 ^ 64 - 2 ^ 63"

definition sum_spec :: "(int list \<Rightarrow> int list \<Rightarrow> int) \<Rightarrow> bool" where
  "sum_spec sm =
     (\<forall>column xs. (\<forall>v \<in> set column. int64 v) \<and> set xs \<subseteq> set column
        \<longrightarrow> sm column xs = wrap64 (sum_list xs))"

definition column_sum :: "int list \<Rightarrow> int list \<Rightarrow> int" where
  "column_sum column xs =
     (if \<forall>v \<in> set column. int64 v then wrap64 (sum_list xs)
      else if \<forall>v \<in> set column. 0 \<le> v \<and> v < 2 ^ 64 then sum_list xs mod 2 ^ 64
      else sum_list xs)"

text \<open>
  The pair \<^verbatim>\<open>(total_translators, total_downloads)\<close>. On a frame without columns
  \<^verbatim>\<open>drop_duplicates\<close> returns the empty frame as it is, and the lookup of \<^verbatim>\<open>"Translator"\<close>
  in line 140 raises.
\<close>

definition global_insights ::
    "(int list \<Rightarrow> int list \<Rightarrow> int) \<Rightarrow> FlatRow list \<Rightarrow> fault + nat \<times> int" where
  "global_insights sm df =
     (if df = [] then Inl (KeyError ''Translator'')
      else
        (let unique_posts = drop_duplicates [] df;
             total_translators = length (remdups (map FlatRow.Translator df));
             total_downloads = sm (map Post_Downloads df) (map Post_Downloads unique_posts)
         in Inr (total_translators, total_downloads)))"

section \<open>\<^verbatim>\<open>main\<close>\<close>

text \<open>
  What the program takes from its libraries and the model takes as parameters: the Unicode
  database behind \<^verbatim>\<open>str.lower\<close>, the sum of a pandas column, and what \<^verbatim>\<open>st.sidebar.dataframe\<close>
  and \<^verbatim>\<open>st.dataframe\<close> raise, if anything, when they convert a frame for display:
  streamlit refuses a frame with an integer that it cannot convert. The statements about
  \<^verbatim>\<open>main\<close> hold for every such library.
\<close>

record library =
  unicode :: ucd
  series_sum :: "int list \<Rightarrow> int list \<Rightarrow> int"
  show_table :: "TableRow list \<Rightarrow> fault option"
  show_posts :: "(int \<times> FlatRow) list \<Rightarrow> fault option"

text \<open>The frames whose integers all lie in the int64 range.\<close>

definition int64_table :: "TableRow list \<Rightarrow> bool" where
  "int64_table table =
     (\<forall>row \<in> set table. int64 (TableRow.Rank row) \<and> int64 (TableRow.Total_Downloads row))"

definition int64_pid :: "pid_value \<Rightarrow> bool" where
  "int64_pid p = (case p of PidStr s \<Rightarrow> True | PidInt v \<Rightarrow> int64 v)"

definition int64_posts :: "(int \<times> FlatRow) list \<Rightarrow> bool" where
  "int64_posts frame =
     (\<forall>(i, r) \<in> set frame. int64 i \<and> int64 (Post_Downloads r) \<and> int64_pid (PID r))"

text \<open>
  The right panel (lines 79 to 131), shown when the selection is neither \<^verbatim>\<open>None\<close> nor the
  empty string. \<^verbatim>\<open>iloc[0]\<close> raises on a frame without rows. Calls that only arrange the
  page (\<^verbatim>\<open>st.columns\<close>, \<^verbatim>\<open>update_layout\<close>, \<^verbatim>\<open>update_xaxes\<close>) are left out.
\<close>

definition right_panel ::
    "library \<Rightarrow> string option \<Rightarrow> FlatRow list \<Rightarrow> call list \<times> fault option" where
  "right_panel lib selected_translator translator_data =
     (case selected_translator of
        None \<Rightarrow> ([], None)
      | Some s \<Rightarrow>
          if s = [] then ([], None)
          else
            (let ui = [st_write [Lit ''### '', Name s, Lit '''s Overview'']]
             in case translator_data of
                  [] \<Rightarrow> (ui, Some IndexError)
                | first # _ \<Rightarrow>
                    (let posts = zip (map int [1..<length translator_data + 1]) translator_data
                     in (ui @
                         [st_metric ''Total Downloads'' (FlatRow.Total_Downloads first),
                          st_metric ''Number of Posts'' (int (length translator_data)),
                          st_write [Lit ''### Download Trends for '', Name s],
                          st_plotly_chart Line translator_data,
                          st_write [Lit ''### Post Distribution for '', Name s],
                          st_plotly_chart Bar translator_data,
                          st_write [Lit ''### Posts by '', Name s],
                          st_dataframe posts],
                         show_posts lib posts))))"

text \<open>
  \<^verbatim>\<open>main\<close>, from the state of the input file, the text typed into the search box and the
  position picked in the selector, to the calls made and the fault that escapes, if any.
  A call that raises is in the list of calls, as the last one. Of the closing tips only the
  heading is kept.
\<close>

definition main ::
    "(GroupRow list \<Rightarrow> GroupRow list) \<Rightarrow> library \<Rightarrow> file_state \<Rightarrow> string \<Rightarrow> nat
      \<Rightarrow> call list \<times> fault option" where
  "main srt lib file search_term choice =
     (let ui = [set_page_config, st_title ''Trending Translators Dashboard'']
      in case load_results file of
           (notice, Inl e) \<Rightarrow> (ui @ notice, Some e)
         | (notice, Inr results) \<Rightarrow>
             if results = [] then (ui @ notice, None)
             else
               (let df = prepare_data results;
                    ui = ui @ notice @
                      [sidebar_title ''Translator Selector'',
                       sidebar_text_input ''Search for a Translator'']
                in case translator_table srt df of
                     Inl e \<Rightarrow> (ui, Some e)
                   | Inr table \<Rightarrow>
                       (let translators = map TableRow.Translator table;
                            (label, options) = selector (unicode lib) search_term translators;
                            selected_translator = selectbox options choice;
                            ui = ui @
                              [sidebar_selectbox label options,
                               sidebar_write ''### Translator List'',
                               sidebar_dataframe table]
                        in case show_table lib table of
                             Some e \<Rightarrow> (ui, Some e)
                           | None \<Rightarrow>
                               (let translator_data =
                                      filter
                                        (\<lambda>r. Some (FlatRow.Translator r) = selected_translator) df
                                in case right_panel lib selected_translator translator_data of
                                     (panel, Some e) \<Rightarrow> (ui @ panel, Some e)
                                   | (panel, None) \<Rightarrow>
                                       (let ui = ui @ panel @
                                              [st_write [Lit ''---''],
                                               st_write [Lit ''### Global Insights'']]
                                        in case global_insights (series_sum lib) df of
                                             Inl e \<Rightarrow> (ui, Some e)
                                           | Inr (total_translators, total_downloads) \<Rightarrow>
                                               (ui @
                                                [st_write [Lit ''**Total Translators**: '',
                                                           Num (int total_translators)],
                                                 st_write
                                                   [Lit
                                                     ''**Total Downloads Across All Translators**: '',
                                                    Num total_downloads],
                                                 st_write [Lit ''#### Tips:'']],
                                                None))))))"

section \<open>The statements of the specification\<close>

text \<open>
  The leaderboard as the specification words it: one row per translator name of the flat
  table, holding the maxima of Rank and of Total Downloads over the rows of that name, the
  rows in descending order of Total Downloads (rows with equal totals in any order), and
  the display index counting \<open>1, 2, ..., n\<close> down the table: row \<open>i\<close>, counted from \<open>0\<close>,
  shows \<open>i + 1\<close>.
\<close>

definition leaderboard_spec :: "FlatRow list \<Rightarrow> TableRow list \<Rightarrow> bool" where
  "leaderboard_spec df table =
     (distinct (map TableRow.Translator table)
      \<and> set (map TableRow.Translator table) = set (map FlatRow.Translator df)
      \<and> (\<forall>row \<in> set table.
            TableRow.Rank row =
              Max (FlatRow.Rank ` {r \<in> set df. FlatRow.Translator r = TableRow.Translator row})
          \<and> TableRow.Total_Downloads row =
              Max (FlatRow.Total_Downloads `
                     {r \<in> set df. FlatRow.Translator r = TableRow.Translator row}))
      \<and> sorted_wrt (\<lambda>a b. TableRow.Total_Downloads a \<ge> TableRow.Total_Downloads b) table
      \<and> (\<forall>i < length table. TableRow.Index (table ! i) = int i + 1))"

text \<open>
  Containment of a search term as a case-insensitive substring, as the specification
  words it: some contiguous part of the name equals the term letter by letter, where two
  characters count as the same letter when they are equal or are both letters of the
  alphabet, \<open>A\<close> to \<open>Z\<close> (codes 65 to 90) and \<open>a\<close> to \<open>z\<close> (codes 97 to 122), at the same place
  in it, which is the code modulo 32.
\<close>

definition ascii_letter :: "char \<Rightarrow> bool" where
  "ascii_letter c =
     ((65 \<le> (of_char c :: nat) \<and> (of_char c :: nat) \<le> 90)
      \<or> (97 \<le> (of_char c :: nat) \<and> (of_char c :: nat) \<le> 122))"

definition same_letter :: "char \<Rightarrow> char \<Rightarrow> bool" where
  "same_letter c d =
     (c = d \<or> (ascii_letter c \<and> ascii_letter d
                \<and> (of_char c :: nat) mod 32 = (of_char d :: nat) mod 32))"

definition contains_ignoring_case :: "string \<Rightarrow> string \<Rightarrow> bool" where
  "contains_ignoring_case search_term name =
     (\<exists>pre mid post. name = pre @ mid @ post \<and> list_all2 same_letter mid search_term)"

section \<open>Example inputs\<close>

text \<open>The scenario of the specification: one translator with two posts.\<close>

definition scenario :: "ResultRecord list" where
  "scenario =
     [\<lparr>rank = 1, translator = ''A'', downloads = 100,
       posts = [\<lparr>title = ''p1'', downloads = 60, pid = PidStr ''x''\<rparr>,
                \<lparr>title = ''p2'', downloads = 40, pid = PidStr ''y''\<rparr>]\<rparr>]"


text \<open>Two records that share a translator name, and a second translator.\<close>

definition shared_name :: "ResultRecord list" where
  "shared_name =
     [\<lparr>rank = 1, translator = ''B'', downloads = 70,
       posts = [\<lparr>title = ''b1'', downloads = 70, pid = PidInt 1\<rparr>]\<rparr>,
      \<lparr>rank = 2, translator = ''A'', downloads = 80,
       posts = [\<lparr>title = ''a1'', downloads = 50, pid = PidInt 2\<rparr>,
                \<lparr>title = ''a2'', downloads = 30, pid = PidInt 3\<rparr>]\<rparr>,
      \<lparr>rank = 3, translator = ''B'', downloads = 100,
       posts = [\<lparr>title = ''b2'', downloads = 30, pid = PidInt 4\<rparr>]\<rparr>]"

text \<open>One pid in three posts: the first in flat-table order holds 1 download, the others 7.\<close>

definition same_pid :: "ResultRecord list" where
  "same_pid =
     [\<lparr>rank = 1, translator = ''A'', downloads = 3,
       posts = [\<lparr>title = ''a'', downloads = 2, pid = PidStr ''y''\<rparr>,
                \<lparr>title = ''b'', downloads = 1, pid = PidStr ''x''\<rparr>]\<rparr>,
      \<lparr>rank = 2, translator = ''B'', downloads = 7,
       posts = [\<lparr>title = ''c'', downloads = 7, pid = PidStr ''x''\<rparr>]\<rparr>,
      \<lparr>rank = 3, translator = ''C'', downloads = 7,
       posts = [\<lparr>title = ''d'', downloads = 7, pid = PidStr ''x''\<rparr>]\<rparr>]"

text \<open>Two translators that hold the same post, with the same downloads.\<close>

definition shared_post :: "ResultRecord list" where
  "shared_post =
     [\<lparr>rank = 1, translator = ''A'', downloads = 10,
       posts = [\<lparr>title = ''s'', downloads = 7, pid = PidStr ''x''\<rparr>,
                \<lparr>title = ''t'', downloads = 3, pid = PidStr ''y''\<rparr>]\<rparr>,
      \<lparr>rank = 2, translator = ''B'', downloads = 7,
       posts = [\<lparr>title = ''s'', downloads = 7, pid = PidStr ''x''\<rparr>]\<rparr>]"


text \<open>
  The Greek capital sigma, \<open>U+03A3\<close>, and the name made of capital alpha, \<open>U+0391\<close>, and
  capital sigma, in UTF-8.
\<close>

definition capital_sigma :: string where
  "capital_sigma = [CHR 0xCE, CHR 0xA3]"

definition alpha_sigma :: string where
  "alpha_sigma = [CHR 0xCE, CHR 0x91, CHR 0xCE, CHR 0xA3]"

section \<open>Instances of the library parameters\<close>

text \<open>
  The rows of the Unicode database for the code points below \<open>U+0100\<close> and for the
  letters \<open>U+0391\<close> to \<open>U+03CB\<close> of the Greek alphabet. It is a fragment: a code point
  outside these ranges is left as it is, without case and not case-ignorable.
\<close>

definition unicode_fragment :: ucd where
  "unicode_fragment =
     \<lparr>ToLowerFull =
        (\<lambda>c. if (65 \<le> c \<and> c \<le> 90) \<or> (192 \<le> c \<and> c \<le> 222 \<and> c \<noteq> 215)
                  \<or> (913 \<le> c \<and> c \<le> 939 \<and> c \<noteq> 930)
               then [c + 32] else [c]),
      IsCased =
        (\<lambda>c. (65 \<le> c \<and> c \<le> 90) \<or> (97 \<le> c \<and> c \<le> 122)
               \<or> c = 170 \<or> c = 181 \<or> c = 186
               \<or> (192 \<le> c \<and> c \<le> 255 \<and> c \<noteq> 215 \<and> c \<noteq> 247)
               \<or> (913 \<le> c \<and> c \<le> 939 \<and> c \<noteq> 930) \<or> (945 \<le> c \<and> c \<le> 971)),
      IsCaseIgnorable =
        (\<lambda>c. c \<in> set [39, 46, 58, 94, 96, 168, 173, 175, 180, 183, 184])\<rparr>"

text \<open>
  The library used to run the model on the example inputs, whose integers all lie in the
  int64 range: \<open>column_sum\<close> for the sums, and a streamlit that shows these frames. Frames
  with an integer beyond that range do not occur in the examples; the instance refuses
  them.
\<close>

definition installed :: library where
  "installed =
     \<lparr>unicode = unicode_fragment,
      series_sum = column_sum,
      show_table =
        (\<lambda>table. if int64_table table then None else Some StreamlitDataframeConversionError),
      show_posts =
        (\<lambda>frame. if int64_posts frame then None else Some StreamlitDataframeConversionError)\<rparr>"

section \<open>Properties of \<^verbatim>\<open>prepare_data\<close>\<close>

lemma append_posts_eq: "append_posts r ps data = data @ map (flat_row r) ps"
  by (induction ps arbitrary: data) simp_all

lemma append_results_eq:
  "append_results rs data = data @ concat (map (\<lambda>r. map (flat_row r) (posts r)) rs)"
  by (induction rs arbitrary: data) (simp_all add: append_posts_eq)

lemma prepare_data_concat:
  "prepare_data rs = concat (map (\<lambda>r. map (flat_row r) (posts r)) rs)"
  by (simp add: prepare_data_def append_results_eq)

lemma prepare_data_Nil: "prepare_data [] = []"
  by (simp add: prepare_data_def)

lemma prepare_data_Cons:
  "prepare_data (r # rs) = map (flat_row r) (posts r) @ prepare_data rs"
  by (simp add: prepare_data_concat)

lemma prepare_data_append: "prepare_data (xs @ ys) = prepare_data xs @ prepare_data ys"
  by (simp add: prepare_data_concat)

lemma length_prepare_data:
  "length (prepare_data rs) = sum_list (map (\<lambda>r. length (posts r)) rs)"
  by (induction rs) (simp_all add: prepare_data_Nil prepare_data_Cons)

lemma rows_before_length: "length (prepare_data (take i rs)) = rows_before rs i"
  by (simp add: rows_before_def length_prepare_data)

lemma prepare_data_nth:
  assumes "i < length rs" and "j < length (posts (rs ! i))"
  shows "rows_before rs i + j < length (prepare_data rs)"
    and "prepare_data rs ! (rows_before rs i + j) = flat_row (rs ! i) (posts (rs ! i) ! j)"
proof -
  have split: "rs = take i rs @ (rs ! i) # drop (Suc i) rs"
    using assms(1) by (simp add: id_take_nth_drop)
  have eq: "prepare_data rs =
      prepare_data (take i rs) @ map (flat_row (rs ! i)) (posts (rs ! i))
        @ prepare_data (drop (Suc i) rs)"
    using arg_cong [OF split, of prepare_data]
    by (simp only: prepare_data_append prepare_data_Cons append_assoc)
  show "rows_before rs i + j < length (prepare_data rs)"
    using assms(2) arg_cong [OF eq, of length] by (simp add: rows_before_length)
  show "prepare_data rs ! (rows_before rs i + j) = flat_row (rs ! i) (posts (rs ! i) ! j)"
    using assms(2) by (subst eq) (simp add: nth_append rows_before_length)
qed

lemma rows_before_Suc:
  "i < length rs \<Longrightarrow> rows_before rs (Suc i) = rows_before rs i + length (posts (rs ! i))"
  by (simp add: rows_before_def take_Suc_conv_app_nth)

lemma rows_before_mono: "i \<le> k \<Longrightarrow> rows_before rs i \<le> rows_before rs k"
proof (induction k)
  case 0
  then show ?case by simp
next
  case (Suc k)
  show ?case
  proof (cases "i = Suc k")
    case True
    then show ?thesis by simp
  next
    case False
    with Suc have le: "rows_before rs i \<le> rows_before rs k" by simp
    show ?thesis
    proof (cases "k < length rs")
      case True
      then show ?thesis using le by (simp add: rows_before_Suc)
    next
      case False
      then show ?thesis using le by (simp add: rows_before_def)
    qed
  qed
qed

lemma row_position_less:
  assumes "i < length rs" and "j < length (posts (rs ! i))"
    and "i < k \<or> (i = k \<and> j < l)"
  shows "rows_before rs i + j < rows_before rs k + l"
proof (cases "i < k")
  case True
  then have "rows_before rs (Suc i) \<le> rows_before rs k"
    by (simp add: rows_before_mono)
  then show ?thesis using assms(1,2) by (simp add: rows_before_Suc)
next
  case False
  then show ?thesis using assms(3) by simp
qed

lemma flat_row_sel:
  "FlatRow.Rank (flat_row R p) = rank R"
  "FlatRow.Translator (flat_row R p) = translator R"
  "FlatRow.Total_Downloads (flat_row R p) = ResultRecord.downloads R"
  "Post_Title (flat_row R p) = title p"
  "Post_Downloads (flat_row R p) = PostRecord.downloads p"
  "PID (flat_row R p) = pid p"
  by (simp_all add: flat_row_def)

lemma set_prepare_data:
  "set (prepare_data rs) = (\<Union>R \<in> set rs. flat_row R ` set (posts R))"
  by (simp add: prepare_data_concat)



subsection \<open>The flat tables of the example inputs\<close>


lemma shared_name_rows:
  "prepare_data shared_name =
     [\<lparr>FlatRow.Rank = 1, Translator = ''B'', Total_Downloads = 70, Post_Title = ''b1'',
       Post_Downloads = 70, PID = PidInt 1\<rparr>,
      \<lparr>FlatRow.Rank = 2, Translator = ''A'', Total_Downloads = 80, Post_Title = ''a1'',
       Post_Downloads = 50, PID = PidInt 2\<rparr>,
      \<lparr>FlatRow.Rank = 2, Translator = ''A'', Total_Downloads = 80, Post_Title = ''a2'',
       Post_Downloads = 30, PID = PidInt 3\<rparr>,
      \<lparr>FlatRow.Rank = 3, Translator = ''B'', Total_Downloads = 100, Post_Title = ''b2'',
       Post_Downloads = 30, PID = PidInt 4\<rparr>]"
  by (simp add: shared_name_def prepare_data_def flat_row_def)

lemma same_pid_rows:
  "prepare_data same_pid =
     [\<lparr>FlatRow.Rank = 1, Translator = ''A'', Total_Downloads = 3, Post_Title = ''a'',
       Post_Downloads = 2, PID = PidStr ''y''\<rparr>,
      \<lparr>FlatRow.Rank = 1, Translator = ''A'', Total_Downloads = 3, Post_Title = ''b'',
       Post_Downloads = 1, PID = PidStr ''x''\<rparr>,
      \<lparr>FlatRow.Rank = 2, Translator = ''B'', Total_Downloads = 7, Post_Title = ''c'',
       Post_Downloads = 7, PID = PidStr ''x''\<rparr>,
      \<lparr>FlatRow.Rank = 3, Translator = ''C'', Total_Downloads = 7, Post_Title = ''d'',
       Post_Downloads = 7, PID = PidStr ''x''\<rparr>]"
  by (simp add: same_pid_def prepare_data_def flat_row_def)

lemma shared_post_rows:
  "prepare_data shared_post =
     [\<lparr>FlatRow.Rank = 1, Translator = ''A'', Total_Downloads = 10, Post_Title = ''s'',
       Post_Downloads = 7, PID = PidStr ''x''\<rparr>,
      \<lparr>FlatRow.Rank = 1, Translator = ''A'', Total_Downloads = 10, Post_Title = ''t'',
       Post_Downloads = 3, PID = PidStr ''y''\<rparr>,
      \<lparr>FlatRow.Rank = 2, Translator = ''B'', Total_Downloads = 7, Post_Title = ''s'',
       Post_Downloads = 7, PID = PidStr ''x''\<rparr>]"
  by (simp add: shared_post_def prepare_data_def flat_row_def)


subsection \<open>Rows copy the parent record and keep the input order\<close>

text \<open>
  C1. Every flat row that \<^verbatim>\<open>prepare_data\<close> derives from a post of a record \<open>R\<close> carries
  \<open>R\<close>'s \<^verbatim>\<open>downloads\<close> as Total Downloads and \<open>R\<close>'s \<^verbatim>\<open>rank\<close> as Rank, whatever the posts
  hold. The row derived from the \<open>j\<close>-th post of the \<open>i\<close>-th record is the one at position
  \<open>rows_before results i + j\<close> of the flat table.
\<close>

theorem prepare_data_copies_parent:
  assumes "i < length results" and "j < length (posts (results ! i))"
  shows "rows_before results i + j < length (prepare_data results)
       \<and> PID (prepare_data results ! (rows_before results i + j)) = pid (posts (results ! i) ! j)
       \<and> FlatRow.Total_Downloads (prepare_data results ! (rows_before results i + j))
           = ResultRecord.downloads (results ! i)
       \<and> FlatRow.Rank (prepare_data results ! (rows_before results i + j)) = rank (results ! i)"
  using prepare_data_nth [OF assms] by (simp add: flat_row_def)

theorem prepare_data_copies_parent_witness:
  "(0::nat) < length scenario \<and> (1::nat) < length (posts (scenario ! 0))
   \<and> PID (prepare_data scenario ! 1) = PidStr ''y''
   \<and> FlatRow.Total_Downloads (prepare_data scenario ! 1) = 100
   \<and> FlatRow.Rank (prepare_data scenario ! 1) = 1"
  using prepare_data_copies_parent [of 0 scenario 1]
  by (simp add: scenario_def rows_before_def)

text \<open>
  C6. \<^verbatim>\<open>prepare_data\<close> preserves order: the flat table is the concatenation, in the input
  order of the records, of one block per record that lists the record's posts in the order
  of its \<^verbatim>\<open>posts\<close> array. Position by position: the row of post \<open>j\<close> of record \<open>i\<close> comes
  before the row of post \<open>l\<close> of record \<open>k\<close> whenever \<open>(i, j)\<close> is before \<open>(k, l)\<close>.
\<close>

theorem prepare_data_preserves_order:
  "prepare_data results = concat (map (\<lambda>r. map (flat_row r) (posts r)) results)
   \<and> (\<forall>i j k l. i < length results \<and> j < length (posts (results ! i))
          \<and> k < length results \<and> l < length (posts (results ! k))
          \<and> (i < k \<or> (i = k \<and> j < l))
        \<longrightarrow> rows_before results i + j < rows_before results k + l
          \<and> rows_before results k + l < length (prepare_data results)
          \<and> prepare_data results ! (rows_before results i + j)
              = flat_row (results ! i) (posts (results ! i) ! j)
          \<and> prepare_data results ! (rows_before results k + l)
              = flat_row (results ! k) (posts (results ! k) ! l))"
  using prepare_data_concat prepare_data_nth row_position_less by blast

theorem prepare_data_preserves_order_witness:
  "prepare_data scenario =
     [\<lparr>FlatRow.Rank = 1, Translator = ''A'', Total_Downloads = 100, Post_Title = ''p1'',
       Post_Downloads = 60, PID = PidStr ''x''\<rparr>,
      \<lparr>FlatRow.Rank = 1, Translator = ''A'', Total_Downloads = 100, Post_Title = ''p2'',
       Post_Downloads = 40, PID = PidStr ''y''\<rparr>]
   \<and> rows_before scenario 0 + 0 < rows_before scenario 0 + 1
   \<and> Post_Title (prepare_data scenario ! 0) = ''p1''
   \<and> Post_Title (prepare_data scenario ! 1) = ''p2''"
proof -
  have "prepare_data scenario = concat (map (\<lambda>r. map (flat_row r) (posts r)) scenario)"
    using prepare_data_preserves_order [of scenario] by (rule conjunct1)
  then have eq: "prepare_data scenario =
     [\<lparr>FlatRow.Rank = 1, Translator = ''A'', Total_Downloads = 100, Post_Title = ''p1'',
       Post_Downloads = 60, PID = PidStr ''x''\<rparr>,
      \<lparr>FlatRow.Rank = 1, Translator = ''A'', Total_Downloads = 100, Post_Title = ''p2'',
       Post_Downloads = 40, PID = PidStr ''y''\<rparr>]"
    by (simp add: scenario_def flat_row_def)
  show ?thesis by (simp add: eq)
qed

section \<open>Properties of the leaderboard\<close>

lemma group_keys_set: "set (group_keys df) = set (map FlatRow.Translator df)"
  by (simp add: group_keys_def)

lemma group_keys_distinct: "distinct (group_keys df)"
  by (simp add: group_keys_def)

lemma group_keys_length: "length (group_keys df) = card (set (map FlatRow.Translator df))"
  by (simp add: group_keys_def length_remdups_card_conv)

lemma group_max_sel:
  "GroupRow.Translator (group_max df t) = t"
  "GroupRow.Rank (group_max df t) = Max (FlatRow.Rank ` {r \<in> set df. FlatRow.Translator r = t})"
  "GroupRow.Total_Downloads (group_max df t)
     = Max (FlatRow.Total_Downloads ` {r \<in> set df. FlatRow.Translator r = t})"
  by (simp_all add: group_max_def Let_def)

lemma groupby_max_nonempty:
  "df \<noteq> [] \<Longrightarrow> groupby_max df = Inr (map (group_max df) (group_keys df))"
  by (simp add: groupby_max_def)

lemma groupby_max_empty: "groupby_max [] = Inl (KeyError ''Translator'')"
  by (simp add: groupby_max_def)

lemma sort_values_spec_sort_values: "sort_values_spec sort_values"
  unfolding sort_values_spec_def descending_def sort_values_def
proof (intro allI conjI)
  fix xs :: "GroupRow list"
  show "mset (rev (sort_key GroupRow.Total_Downloads (rev xs))) = mset xs" by simp
  have "sorted (map GroupRow.Total_Downloads (sort_key GroupRow.Total_Downloads (rev xs)))"
    by (rule sorted_sort_key)
  then have "sorted (rev (map GroupRow.Total_Downloads
      (rev (sort_key GroupRow.Total_Downloads (rev xs)))))"
    by (simp add: rev_map)
  then have "sorted_wrt (\<ge>) (map GroupRow.Total_Downloads
      (rev (sort_key GroupRow.Total_Downloads (rev xs))))"
    by (simp only: sorted_wrt_rev)
  then show "sorted_wrt (\<lambda>a b. GroupRow.Total_Downloads b \<le> GroupRow.Total_Downloads a)
      (rev (sort_key GroupRow.Total_Downloads (rev xs)))"
    by (simp add: sorted_wrt_map)
qed

lemma assign_Index_length: "length (assign_Index rows) = length rows"
  by (simp add: assign_Index_def del: upt_Suc)

lemma assign_Index_nth:
  "i < length rows \<Longrightarrow>
   assign_Index rows ! i =
     \<lparr>Index = int i + 1, Rank = GroupRow.Rank (rows ! i),
      Translator = GroupRow.Translator (rows ! i),
      Total_Downloads = GroupRow.Total_Downloads (rows ! i)\<rparr>"
  by (simp add: assign_Index_def del: upt_Suc)

lemma assign_Index_cols:
  "map TableRow.Translator (assign_Index rows) = map GroupRow.Translator rows"
  "map TableRow.Rank (assign_Index rows) = map GroupRow.Rank rows"
  "map TableRow.Total_Downloads (assign_Index rows) = map GroupRow.Total_Downloads rows"
  by (rule nth_equalityI; simp add: assign_Index_length assign_Index_nth)+

lemma translator_table_nonempty:
  "df \<noteq> [] \<Longrightarrow>
   translator_table srt df = Inr (assign_Index (srt (map (group_max df) (group_keys df))))"
  by (simp add: translator_table_def groupby_max_nonempty)

lemma translator_table_empty: "translator_table srt [] = Inl (KeyError ''Translator'')"
  by (simp add: translator_table_def groupby_max_empty)

lemma sorted_groups:
  assumes "sort_values_spec srt"
  shows "mset (srt gs) = mset gs" and "set (srt gs) = set gs"
    and "length (srt gs) = length gs" and "descending (srt gs)"
proof -
  show m: "mset (srt gs) = mset gs" and "descending (srt gs)"
    using assms by (simp_all add: sort_values_spec_def)
  show "set (srt gs) = set gs" using m by (rule mset_eq_setD)
  show "length (srt gs) = length gs" using m by (rule mset_eq_length)
qed

lemma table_names:
  assumes "sort_values_spec srt"
  shows "mset (map TableRow.Translator (assign_Index (srt (map (group_max df) (group_keys df)))))
           = mset (group_keys df)"
proof -
  have ks: "map GroupRow.Translator (map (group_max df) (group_keys df)) = group_keys df"
    by (rule nth_equalityI) (simp_all add: group_max_sel(1))
  have "mset (map GroupRow.Translator (srt (map (group_max df) (group_keys df))))
          = image_mset GroupRow.Translator (mset (srt (map (group_max df) (group_keys df))))"
    by (simp only: mset_map)
  also have "\<dots> = image_mset GroupRow.Translator (mset (map (group_max df) (group_keys df)))"
    by (simp only: sorted_groups(1) [OF assms])
  also have "\<dots> = mset (map GroupRow.Translator (map (group_max df) (group_keys df)))"
    by (simp only: mset_map)
  finally show ?thesis by (simp only: assign_Index_cols(1) ks)
qed

lemma table_row_max:
  assumes "sort_values_spec srt"
    and "row \<in> set (assign_Index (srt (map (group_max df) (group_keys df))))"
  shows "TableRow.Rank row =
           Max (FlatRow.Rank ` {r \<in> set df. FlatRow.Translator r = TableRow.Translator row})"
    and "TableRow.Total_Downloads row =
           Max (FlatRow.Total_Downloads `
                  {r \<in> set df. FlatRow.Translator r = TableRow.Translator row})"
proof -
  let ?gs = "srt (map (group_max df) (group_keys df))"
  from assms(2) obtain i where i: "i < length ?gs" and row: "row = assign_Index ?gs ! i"
    by (auto simp: in_set_conv_nth assign_Index_length)
  have "?gs ! i \<in> set ?gs" using i by simp
  then have "?gs ! i \<in> set (map (group_max df) (group_keys df))"
    by (simp only: sorted_groups(2) [OF assms(1)])
  then obtain t where g: "?gs ! i = group_max df t" by auto
  show "TableRow.Rank row =
           Max (FlatRow.Rank ` {r \<in> set df. FlatRow.Translator r = TableRow.Translator row})"
    using i by (simp add: row assign_Index_nth g group_max_sel)
  show "TableRow.Total_Downloads row =
           Max (FlatRow.Total_Downloads `
                  {r \<in> set df. FlatRow.Translator r = TableRow.Translator row})"
    using i by (simp add: row assign_Index_nth g group_max_sel)
qed

lemma table_sorted:
  assumes "sort_values_spec srt"
  shows "sorted_wrt (\<lambda>a b. TableRow.Total_Downloads a \<ge> TableRow.Total_Downloads b)
           (assign_Index (srt gs))"
proof -
  have "sorted_wrt (\<ge>) (map GroupRow.Total_Downloads (srt gs))"
    using sorted_groups(4) [OF assms, of gs] by (simp add: descending_def sorted_wrt_map)
  then have "sorted_wrt (\<ge>) (map TableRow.Total_Downloads (assign_Index (srt gs)))"
    by (simp only: assign_Index_cols(3))
  then show ?thesis by (simp add: sorted_wrt_map)
qed

lemma translator_table_meets_spec:
  assumes "sort_values_spec srt" and "df \<noteq> []"
  shows "leaderboard_spec df (assign_Index (srt (map (group_max df) (group_keys df))))"
proof -
  let ?table = "assign_Index (srt (map (group_max df) (group_keys df)))"
  have names: "mset (map TableRow.Translator ?table) = mset (group_keys df)"
    by (rule table_names [OF assms(1)])
  have a: "distinct (map TableRow.Translator ?table)"
    by (simp only: mset_eq_imp_distinct_iff [OF names] group_keys_distinct)
  have b: "set (map TableRow.Translator ?table) = set (map FlatRow.Translator df)"
    using mset_eq_setD [OF names] by (simp only: group_keys_set)
  have c: "\<forall>row \<in> set ?table.
            TableRow.Rank row =
              Max (FlatRow.Rank ` {r \<in> set df. FlatRow.Translator r = TableRow.Translator row})
          \<and> TableRow.Total_Downloads row =
              Max (FlatRow.Total_Downloads `
                     {r \<in> set df. FlatRow.Translator r = TableRow.Translator row})"
  proof (intro ballI conjI)
    fix row
    assume row: "row \<in> set ?table"
    show "TableRow.Rank row =
        Max (FlatRow.Rank ` {r \<in> set df. FlatRow.Translator r = TableRow.Translator row})"
      by (rule table_row_max(1) [OF assms(1) row])
    show "TableRow.Total_Downloads row =
        Max (FlatRow.Total_Downloads `
               {r \<in> set df. FlatRow.Translator r = TableRow.Translator row})"
      by (rule table_row_max(2) [OF assms(1) row])
  qed
  have d: "sorted_wrt (\<lambda>a b. TableRow.Total_Downloads a \<ge> TableRow.Total_Downloads b)
      ?table"
    by (rule table_sorted [OF assms(1)])
  have e: "\<forall>i < length ?table. TableRow.Index (?table ! i) = int i + 1"
    by (simp add: assign_Index_length assign_Index_nth)
  show ?thesis
    unfolding leaderboard_spec_def by (intro conjI a b c d e)
qed


lemma shared_name_table:
  "translator_table sort_values (prepare_data shared_name) =
     Inr [\<lparr>Index = 1, Rank = 3, Translator = ''B'', Total_Downloads = 100\<rparr>,
          \<lparr>Index = 2, Rank = 2, Translator = ''A'', Total_Downloads = 80\<rparr>]"
  by (simp add: shared_name_rows translator_table_def
      groupby_max_def group_keys_def group_max_def sort_values_def assign_Index_def)

section \<open>Properties of the deduplication and of the global insights\<close>

lemma global_insights_nonempty:
  "df \<noteq> [] \<Longrightarrow>
   global_insights sm df =
     Inr (length (remdups (map FlatRow.Translator df)),
          sm (map Post_Downloads df) (map Post_Downloads (drop_duplicates [] df)))"
  by (simp add: global_insights_def)

lemma global_insights_empty: "global_insights sm [] = Inl (KeyError ''Translator'')"
  by (simp add: global_insights_def)

lemma column_sum_spec: "sum_spec column_sum"
  by (simp add: sum_spec_def column_sum_def)

lemma wrap64_int64: "int64 v \<Longrightarrow> wrap64 v = v"
  by (simp add: int64_def wrap64_def)

lemma drop_duplicates_subset: "set (drop_duplicates seen df) \<subseteq> set df"
  by (induction df arbitrary: seen) auto

lemma global_insights_int64:
  assumes "sum_spec sm" and "df \<noteq> []" and "\<forall>r \<in> set df. int64 (Post_Downloads r)"
  shows "global_insights sm df =
           Inr (length (remdups (map FlatRow.Translator df)),
                wrap64 (sum_list (map Post_Downloads (drop_duplicates [] df))))"
proof -
  have column: "\<forall>v \<in> set (map Post_Downloads df). int64 v"
    using assms(3) by simp
  have sub: "set (map Post_Downloads (drop_duplicates [] df)) \<subseteq> set (map Post_Downloads df)"
    using drop_duplicates_subset [of "[]" df] by auto
  have "sm (map Post_Downloads df) (map Post_Downloads (drop_duplicates [] df))
      = wrap64 (sum_list (map Post_Downloads (drop_duplicates [] df)))"
    using assms(1) column sub unfolding sum_spec_def by blast
  then show ?thesis by (simp only: global_insights_nonempty [OF assms(2)])
qed

lemma drop_duplicates_seen:
  "drop_duplicates seen df = filter (\<lambda>r. PID r \<notin> set seen) (drop_duplicates [] df)"
proof (induction df arbitrary: seen)
  case Nil
  show ?case by simp
next
  case (Cons r df)
  have 1: "drop_duplicates seen df = filter (\<lambda>x. PID x \<notin> set seen) (drop_duplicates [] df)"
    by (rule Cons.IH)
  have 2: "drop_duplicates (PID r # seen) df =
      filter (\<lambda>x. PID x \<notin> set (PID r # seen)) (drop_duplicates [] df)"
    by (rule Cons.IH)
  have 3: "drop_duplicates [PID r] df =
      filter (\<lambda>x. PID x \<notin> set [PID r]) (drop_duplicates [] df)"
    by (rule Cons.IH)
  show ?case
  proof (cases "PID r \<in> set seen")
    case True
    have "filter (\<lambda>x. PID x \<notin> set seen) (filter (\<lambda>x. PID x \<notin> set [PID r])
        (drop_duplicates [] df)) = filter (\<lambda>x. PID x \<notin> set seen) (drop_duplicates [] df)"
      unfolding filter_filter using True by (intro filter_cong refl) auto
    then show ?thesis using True by (simp add: 1 3)
  next
    case False
    have "filter (\<lambda>x. PID x \<notin> set seen) (filter (\<lambda>x. PID x \<notin> set [PID r])
        (drop_duplicates [] df)) =
      filter (\<lambda>x. PID x \<notin> set (PID r # seen)) (drop_duplicates [] df)"
      unfolding filter_filter by (intro filter_cong refl) auto
    then show ?thesis using False by (simp add: 2 3)
  qed
qed

lemma drop_duplicates_seen_cong:
  "set seen = set seen' \<Longrightarrow> drop_duplicates seen df = drop_duplicates seen' df"
  by (simp add: drop_duplicates_seen [of seen] drop_duplicates_seen [of seen'])

lemma drop_duplicates_append:
  "drop_duplicates seen (xs @ ys) =
     drop_duplicates seen xs @ drop_duplicates (map PID xs @ seen) ys"
proof (induction xs arbitrary: seen)
  case Nil
  show ?case by simp
next
  case (Cons x xs)
  show ?case
  proof (cases "PID x \<in> set seen")
    case True
    have "drop_duplicates (map PID xs @ seen) ys = drop_duplicates (PID x # map PID xs @ seen) ys"
      using True by (intro drop_duplicates_seen_cong) auto
    then show ?thesis using True by (simp add: Cons.IH)
  next
    case False
    have "drop_duplicates (map PID xs @ PID x # seen) ys =
        drop_duplicates (PID x # map PID xs @ seen) ys"
      by (intro drop_duplicates_seen_cong) auto
    then show ?thesis using False by (simp add: Cons.IH)
  qed
qed

lemma drop_duplicates_filter:
  "drop_duplicates seen (filter (\<lambda>x. PID x \<noteq> p) df) = drop_duplicates (p # seen) df"
proof (induction df arbitrary: seen)
  case Nil
  show ?case by simp
next
  case (Cons r df)
  have swap: "drop_duplicates (PID r # p # seen) df = drop_duplicates (p # PID r # seen) df"
    by (intro drop_duplicates_seen_cong) auto
  show ?case by (simp add: Cons.IH swap)
qed

lemma drop_duplicates_PIDs:
  "set (map PID (drop_duplicates seen df)) = set (map PID df) - set seen"
  by (induction df arbitrary: seen) auto

lemma drop_duplicates_distinct: "distinct (map PID (drop_duplicates seen df))"
proof (induction df arbitrary: seen)
  case Nil
  show ?case by simp
next
  case (Cons r df)
  have "PID r \<notin> set (map PID (drop_duplicates (PID r # seen) df))"
    by (simp only: drop_duplicates_PIDs) simp
  then show ?case using Cons.IH by simp
qed

lemma drop_duplicates_first:
  assumes "PID r \<notin> PID ` set xs"
  shows "drop_duplicates [] (xs @ r # ys) =
           drop_duplicates [] xs @ r # drop_duplicates (PID r # map PID xs) ys"
    and "drop_duplicates [] (filter (\<lambda>x. PID x \<noteq> PID r) (xs @ r # ys)) =
           drop_duplicates [] xs @ drop_duplicates (PID r # map PID xs) ys"
proof -
  show "drop_duplicates [] (xs @ r # ys) =
           drop_duplicates [] xs @ r # drop_duplicates (PID r # map PID xs) ys"
    using assms by (simp add: drop_duplicates_append)
  have "filter (\<lambda>x. PID x \<noteq> PID r) xs = xs"
    using assms by (intro filter_True) (auto simp: image_iff)
  then show "drop_duplicates [] (filter (\<lambda>x. PID x \<noteq> PID r) (xs @ r # ys)) =
           drop_duplicates [] xs @ drop_duplicates (PID r # map PID xs) ys"
    by (simp add: drop_duplicates_append drop_duplicates_filter)
qed

lemma total_first:
  assumes "PID r \<notin> PID ` set xs"
  shows "sum_list (map Post_Downloads (drop_duplicates [] (xs @ r # ys))) =
           Post_Downloads r +
           sum_list (map Post_Downloads
             (drop_duplicates [] (filter (\<lambda>x. PID x \<noteq> PID r) (xs @ r # ys))))"
  by (simp only: drop_duplicates_first [OF assms] map_append list.map sum_list.append
      sum_list.Cons add.left_commute)

lemma filter_update_out:
  assumes "j < length xs" and "\<not> P (xs ! j)" and "\<not> P y"
  shows "filter P (xs[j := y]) = filter P xs"
proof -
  have "filter P (take j xs @ y # drop (Suc j) xs) = filter P (take j xs @ xs ! j # drop (Suc j) xs)"
    using assms(2,3) by simp
  then show ?thesis
    using assms(1) by (simp only: upd_conv_take_nth_drop id_take_nth_drop [symmetric])
qed

lemma first_row_total:
  assumes "i < length df" and "\<forall>k<i. PID (df ! k) \<noteq> PID (df ! i)"
  shows "sum_list (map Post_Downloads (drop_duplicates [] df)) =
           Post_Downloads (df ! i) +
           sum_list (map Post_Downloads
             (drop_duplicates [] (filter (\<lambda>r. PID r \<noteq> PID (df ! i)) df)))"
proof -
  have split: "df = take i df @ df ! i # drop (Suc i) df"
    using assms(1) by (rule id_take_nth_drop)
  have first: "PID (df ! i) \<notin> PID ` set (take i df)"
  proof
    assume "PID (df ! i) \<in> PID ` set (take i df)"
    then obtain x where x: "x \<in> set (take i df)" and eq: "PID (df ! i) = PID x" by auto
    from x obtain k where "k < length (take i df)" and "take i df ! k = x"
      by (auto simp: in_set_conv_nth)
    then have "k < i" and "df ! k = x" using assms(1) by simp_all
    with assms(2) eq show False by auto
  qed
  have "sum_list (map Post_Downloads
          (drop_duplicates [] (take i df @ df ! i # drop (Suc i) df))) =
        Post_Downloads (df ! i) +
        sum_list (map Post_Downloads
          (drop_duplicates []
             (filter (\<lambda>x. PID x \<noteq> PID (df ! i)) (take i df @ df ! i # drop (Suc i) df))))"
    by (rule total_first [OF first])
  then show ?thesis by (simp only: split [symmetric])
qed

lemma one_value_total:
  assumes "r \<in> set df"
  shows "\<exists>y \<in> set df. PID y = PID r
           \<and> sum_list (map Post_Downloads (drop_duplicates [] df)) =
               Post_Downloads y +
               sum_list (map Post_Downloads
                 (drop_duplicates [] (filter (\<lambda>x. PID x \<noteq> PID r) df)))"
proof -
  from assms(1) have "\<exists>x \<in> set df. PID x = PID r" by auto
  from split_list_first_prop [OF this]
  obtain xs y ys where df: "df = xs @ y # ys" and y: "PID y = PID r"
    and xs: "\<forall>x \<in> set xs. PID x \<noteq> PID r"
    by blast
  have first: "PID y \<notin> PID ` set xs" using xs y by (auto simp: image_iff)
  have "sum_list (map Post_Downloads (drop_duplicates [] df)) =
      Post_Downloads y +
      sum_list (map Post_Downloads (drop_duplicates [] (filter (\<lambda>x. PID x \<noteq> PID r) df)))"
    using total_first [OF first, of ys] by (simp add: df y)
  moreover have "y \<in> set df" by (simp add: df)
  ultimately show ?thesis using y by blast
qed

lemma same_value_total:
  assumes "r \<in> set df" and "\<forall>x \<in> set df. PID x = PID r \<longrightarrow> Post_Downloads x = D"
  shows "sum_list (map Post_Downloads (drop_duplicates [] df)) =
           D + sum_list (map Post_Downloads
                 (drop_duplicates [] (filter (\<lambda>x. PID x \<noteq> PID r) df)))"
proof -
  from assms(1) have "\<exists>x \<in> set df. PID x = PID r" by auto
  from split_list_first_prop [OF this]
  obtain xs y ys where df: "df = xs @ y # ys" and y: "PID y = PID r"
    and xs: "\<forall>x \<in> set xs. PID x \<noteq> PID r"
    by blast
  have first: "PID y \<notin> PID ` set xs" using xs y by (auto simp: image_iff)
  have "Post_Downloads y = D" using assms(2) y df by simp
  then show ?thesis using total_first [OF first, of ys] by (simp add: df y)
qed

lemma one_survivor:
  assumes "distinct (map f xs)" and "a \<in> f ` set xs"
  shows "length (filter (\<lambda>x. f x = a) xs) = 1"
  using assms
proof (induction xs)
  case Nil
  then show ?case by simp
next
  case (Cons x xs)
  show ?case
  proof (cases "f x = a")
    case True
    then have "filter (\<lambda>x. f x = a) xs = []"
      using Cons.prems(1) by (auto simp: filter_empty_conv image_iff)
    then show ?thesis using True by simp
  next
    case False
    then show ?thesis using Cons by (auto simp: image_iff)
  qed
qed

lemma two_rows:
  assumes "a \<in> set xs" and "b \<in> set xs" and "a \<noteq> b" and "P a" and "P b"
  shows "2 \<le> length (filter P xs)"
proof -
  have "{a, b} \<subseteq> set (filter P xs)" using assms by simp
  then have "card {a, b} \<le> card (set (filter P xs))" by (intro card_mono) simp_all
  also have "\<dots> \<le> length (filter P xs)" by (rule card_length)
  finally show ?thesis using assms(3) by simp
qed



section \<open>Properties of the translator selector\<close>

lemma letters_distinct: "distinct (map fst letters)"
  by (simp add: letters_def)

lemma letters_codes:
  "(c, l) \<in> set letters \<Longrightarrow>
   65 \<le> (of_char c :: nat) \<and> (of_char c :: nat) \<le> 90 \<and> (of_char l :: nat) = of_char c + 32"
  by (auto simp add: letters_def)

lemma letters_complete:
  assumes "65 \<le> (of_char c :: nat)" and "(of_char c :: nat) \<le> 90"
  shows "(c, char_of ((of_char c :: nat) + 32)) \<in> set letters"
proof -
  have all: "\<forall>n \<in> set [65..<91]. (char_of n, char_of (n + 32)) \<in> set letters"
    by code_simp
  have "(of_char c :: nat) \<in> set [65..<91]"
    unfolding set_upt using assms by simp
  with all have "(char_of (of_char c :: nat), char_of ((of_char c :: nat) + 32)) \<in> set letters"
    by blast
  then show ?thesis by simp
qed

lemma lower_char_code:
  "(of_char (lower_char c) :: nat) =
     (if 65 \<le> (of_char c :: nat) \<and> (of_char c :: nat) \<le> 90 then of_char c + 32 else of_char c)"
proof (cases "65 \<le> (of_char c :: nat) \<and> (of_char c :: nat) \<le> 90")
  case True
  then have "(c, char_of ((of_char c :: nat) + 32)) \<in> set letters"
    by (simp add: letters_complete)
  then have "map_of letters c = Some (char_of ((of_char c :: nat) + 32))"
    by (rule map_of_is_SomeI [OF letters_distinct])
  then show ?thesis using True by (simp add: lower_char_def)
next
  case False
  have "map_of letters c = None"
  proof (cases "map_of letters c")
    case None
    then show ?thesis .
  next
    case (Some l)
    then have "(c, l) \<in> set letters" by (rule map_of_SomeD)
    with False letters_codes show ?thesis by blast
  qed
  then show ?thesis using False by (simp add: lower_char_def)
qed

lemma upper_mod: "k mod 32 = k - 64" if "65 \<le> k" "k \<le> 90" for k :: nat
proof -
  have "k = 32 * 2 + (k - 64)" using that by simp
  then have "k mod 32 = (32 * 2 + (k - 64)) mod 32" by simp
  also have "\<dots> = (k - 64) mod 32" by (rule mod_mult_self4)
  also have "\<dots> = k - 64" using that by simp
  finally show ?thesis .
qed

lemma lower_mod: "k mod 32 = k - 96" if "97 \<le> k" "k \<le> 122" for k :: nat
proof -
  have "k = 32 * 3 + (k - 96)" using that by simp
  then have "k mod 32 = (32 * 3 + (k - 96)) mod 32" by simp
  also have "\<dots> = (k - 96) mod 32" by (rule mod_mult_self4)
  also have "\<dots> = k - 96" using that by simp
  finally show ?thesis .
qed

lemma fold_eq_iff:
  fixes n m :: nat
  assumes "n \<noteq> m"
  shows "((if 65 \<le> n \<and> n \<le> 90 then n + 32 else n) = (if 65 \<le> m \<and> m \<le> 90 then m + 32 else m))
     \<longleftrightarrow> (((65 \<le> n \<and> n \<le> 90) \<or> (97 \<le> n \<and> n \<le> 122))
          \<and> ((65 \<le> m \<and> m \<le> 90) \<or> (97 \<le> m \<and> m \<le> 122))
          \<and> n mod 32 = m mod 32)"
proof -
  consider (uu) "65 \<le> n" "n \<le> 90" "65 \<le> m" "m \<le> 90"
    | (ul) "65 \<le> n" "n \<le> 90" "97 \<le> m" "m \<le> 122"
    | (lu) "97 \<le> n" "n \<le> 122" "65 \<le> m" "m \<le> 90"
    | (ll) "97 \<le> n" "n \<le> 122" "97 \<le> m" "m \<le> 122"
    | (nn) "\<not> ((65 \<le> n \<and> n \<le> 90) \<or> (97 \<le> n \<and> n \<le> 122))"
    | (nm) "\<not> ((65 \<le> m \<and> m \<le> 90) \<or> (97 \<le> m \<and> m \<le> 122))"
    by linarith
  then show ?thesis
  proof cases
    case uu
    then show ?thesis using assms upper_mod [of n] upper_mod [of m] by (simp; linarith)
  next
    case ul
    then show ?thesis using assms upper_mod [of n] lower_mod [of m] by (simp; linarith)
  next
    case lu
    then show ?thesis using assms lower_mod [of n] upper_mod [of m] by (simp; linarith)
  next
    case ll
    then show ?thesis using assms lower_mod [of n] lower_mod [of m] by (simp; linarith)
  next
    case nn
    then show ?thesis using assms by (simp split: if_splits; linarith)
  next
    case nm
    then show ?thesis using assms by (simp split: if_splits; linarith)
  qed
qed

lemma lower_char_eq_iff: "lower_char c = lower_char d \<longleftrightarrow> same_letter c d"
proof (cases "c = d")
  case True
  then show ?thesis by (simp add: same_letter_def)
next
  case False
  then have ne: "(of_char c :: nat) \<noteq> of_char d" by simp
  have "lower_char c = lower_char d
          \<longleftrightarrow> (of_char (lower_char c) :: nat) = of_char (lower_char d)"
    by simp
  also have "\<dots> \<longleftrightarrow> (ascii_letter c \<and> ascii_letter d
                \<and> (of_char c :: nat) mod 32 = (of_char d :: nat) mod 32)"
    unfolding lower_char_code ascii_letter_def by (rule fold_eq_iff [OF ne])
  also have "\<dots> \<longleftrightarrow> same_letter c d"
    using False by (simp add: same_letter_def)
  finally show ?thesis .
qed

lemma map_lower_char_eq_iff:
  "map lower_char s = map lower_char t \<longleftrightarrow> list_all2 same_letter s t"
proof (induction s arbitrary: t)
  case Nil
  show ?case by simp
next
  case (Cons c s)
  show ?case
  proof (cases t)
    case Nil
    then show ?thesis by simp
  next
    case (Cons d t')
    have "map lower_char s = map lower_char t' \<longleftrightarrow> list_all2 same_letter s t'"
      by (rule Cons.IH)
    then show ?thesis
      using Cons by (simp add: lower_char_eq_iff)
  qed
qed

lemma lower_ascii: "is_ascii s \<Longrightarrow> lower u s = map lower_char s"
  by (simp add: lower_def)

lemma starts_with_iff: "starts_with needle hay \<longleftrightarrow> (\<exists>post. hay = needle @ post)"
  by (induction needle hay rule: starts_with.induct) auto

lemma str_in_iff: "str_in needle hay \<longleftrightarrow> (\<exists>pre post. hay = pre @ needle @ post)"
proof (induction hay)
  case Nil
  show ?case by auto
next
  case (Cons d hay)
  show ?case
  proof
    assume "str_in needle (d # hay)"
    then consider "starts_with needle (d # hay)" | "str_in needle hay" by auto
    then show "\<exists>pre post. d # hay = pre @ needle @ post"
    proof cases
      case 1
      then obtain post where "d # hay = needle @ post"
        unfolding starts_with_iff by blast
      then have "d # hay = [] @ needle @ post" by simp
      then show ?thesis by blast
    next
      case 2
      then obtain pre post where "hay = pre @ needle @ post"
        unfolding Cons.IH by blast
      then have "d # hay = (d # pre) @ needle @ post" by simp
      then show ?thesis by blast
    qed
  next
    assume "\<exists>pre post. d # hay = pre @ needle @ post"
    then obtain pre post where eq: "d # hay = pre @ needle @ post" by blast
    show "str_in needle (d # hay)"
    proof (cases pre)
      case Nil
      with eq have "starts_with needle (d # hay)"
        unfolding starts_with_iff by auto
      then show ?thesis by simp
    next
      case (Cons e pre')
      with eq have "hay = pre' @ needle @ post" by simp
      then have "str_in needle hay" unfolding Cons.IH by blast
      then show ?thesis by simp
    qed
  qed
qed

lemma matches_iff:
  assumes "is_ascii search_term" and "is_ascii name"
  shows "str_in (lower u search_term) (lower u name)
           \<longleftrightarrow> contains_ignoring_case search_term name"
proof -
  have "str_in (map lower_char search_term) (map lower_char name)
          \<longleftrightarrow> contains_ignoring_case search_term name"
  proof
    assume "str_in (map lower_char search_term) (map lower_char name)"
    then have "\<exists>pre post. map lower_char name = pre @ map lower_char search_term @ post"
      by (simp only: str_in_iff)
    then obtain pre post
      where "map lower_char name = pre @ map lower_char search_term @ post"
      by blast
    from this [unfolded map_eq_append_conv]
    obtain us vs where name: "name = us @ vs"
      and vs: "map lower_char search_term @ post = map lower_char vs"
      by blast
    from vs [unfolded append_eq_map_conv]
    obtain mid ws where split: "vs = mid @ ws"
      and mid: "map lower_char search_term = map lower_char mid"
      by blast
    have "map lower_char mid = map lower_char search_term"
      using mid by (rule sym)
    then have "list_all2 same_letter mid search_term"
      by (simp only: map_lower_char_eq_iff)
    moreover have "name = us @ mid @ ws"
      by (simp only: name split)
    ultimately show "contains_ignoring_case search_term name"
      unfolding contains_ignoring_case_def by blast
  next
    assume "contains_ignoring_case search_term name"
    then obtain pre mid post where name: "name = pre @ mid @ post"
      and same: "list_all2 same_letter mid search_term"
      unfolding contains_ignoring_case_def by blast
    from same have "map lower_char mid = map lower_char search_term"
      by (simp only: map_lower_char_eq_iff)
    then have "map lower_char name
        = map lower_char pre @ map lower_char search_term @ map lower_char post"
      by (simp only: name map_append)
    then have "\<exists>pre post. map lower_char name = pre @ map lower_char search_term @ post"
      by blast
    then show "str_in (map lower_char search_term) (map lower_char name)"
      by (simp only: str_in_iff)
  qed
  then show ?thesis
    by (simp only: lower_ascii [OF assms(1)] lower_ascii [OF assms(2)])
qed

lemma selectbox_in_options:
  assumes "selectbox options choice = Some s"
  shows "s \<in> set options"
proof (cases options)
  case Nil
  with assms show ?thesis by (simp add: selectbox_def)
next
  case (Cons first rest)
  show ?thesis
  proof (cases "choice < length options")
    case True
    with assms Cons have "s = options ! choice" by (simp add: selectbox_def)
    with True show ?thesis by simp
  next
    case False
    with assms Cons have "s = first" by (simp add: selectbox_def)
    with Cons show ?thesis by simp
  qed
qed

lemma selector_subset: "set (snd (selector u search_term translators)) \<subseteq> set translators"
  by (simp add: selector_def matching_translators_def)

lemma sigma_lower:
  "lower unicode_fragment capital_sigma = [CHR 0xCF, CHR 0x83]"
  "lower unicode_fragment alpha_sigma = [CHR 0xCE, CHR 0xB1, CHR 0xCF, CHR 0x82]"
  by code_simp+

section \<open>Properties of \<^verbatim>\<open>main\<close>\<close>

lemma load_results_simps:
  "load_results Missing =
     ([st_error ''Final results file not found. Please run the algorithm first.''], Inr [])"
  "load_results Malformed = ([], Inl JSONDecodeError)"
  "load_results (Content results) = ([], Inr results)"
  by (simp_all add: load_results_def)

lemma main_empty:
  "main srt lib (Content []) search_term choice =
     ([set_page_config, st_title ''Trending Translators Dashboard''], None)"
  unfolding main_def
  by (simp only: load_results_simps Let_def prod.case sum.case if_True append_Nil2 simp_thms)

lemma main_missing:
  "main srt lib Missing search_term choice =
     ([set_page_config, st_title ''Trending Translators Dashboard'',
       st_error ''Final results file not found. Please run the algorithm first.''], None)"
  unfolding main_def
  by (simp only: load_results_simps Let_def prod.case sum.case if_True append.simps simp_thms)


text \<open>
  Whatever the libraries do, a run on a flat table with at least one row reaches the
  selector and the leaderboard of the sidebar.
\<close>

lemma main_sidebar:
  assumes "prepare_data results \<noteq> []"
    and "translator_table srt (prepare_data results) = Inr table"
  shows "\<exists>rest e. main srt lib (Content results) search_term choice =
           ([set_page_config, st_title ''Trending Translators Dashboard'',
             sidebar_title ''Translator Selector'',
             sidebar_text_input ''Search for a Translator'',
             sidebar_selectbox
               (fst (selector (unicode lib) search_term (map TableRow.Translator table)))
               (snd (selector (unicode lib) search_term (map TableRow.Translator table))),
             sidebar_write ''### Translator List'',
             sidebar_dataframe table] @ rest, e)"
proof -
  let ?df = "prepare_data results"
  let ?names = "map TableRow.Translator table"
  let ?label = "fst (selector (unicode lib) search_term ?names)"
  let ?options = "snd (selector (unicode lib) search_term ?names)"
  let ?selected = "selectbox ?options choice"
  let ?data = "filter (\<lambda>r. Some (FlatRow.Translator r) = ?selected) ?df"
  let ?ui = "[set_page_config, st_title ''Trending Translators Dashboard'',
             sidebar_title ''Translator Selector'',
             sidebar_text_input ''Search for a Translator'',
             sidebar_selectbox ?label ?options,
             sidebar_write ''### Translator List'',
             sidebar_dataframe table]"
  have results: "results \<noteq> []"
    using assms(1) by (auto simp: prepare_data_Nil)
  have sel_pair: "selector (unicode lib) search_term ?names = (?label, ?options)"
    by simp
  show ?thesis
  proof (cases "show_table lib table")
    case (Some e)
    have "main srt lib (Content results) search_term choice = (?ui @ [], Some e)"
      unfolding main_def load_results_simps Let_def prod.case sum.case assms(2)
      apply (simp only: results if_False)
      apply (subst sel_pair)
      apply (simp only: prod.case Some option.case append.simps append_assoc)
      done
    then show ?thesis by blast
  next
    case None
    note shown = this
    obtain panel pe where panel: "right_panel lib ?selected ?data = (panel, pe)"
      by (cases "right_panel lib ?selected ?data")
    show ?thesis
    proof (cases pe)
      case (Some e)
      have "main srt lib (Content results) search_term choice = (?ui @ panel, Some e)"
        unfolding main_def load_results_simps Let_def prod.case sum.case assms(2)
        apply (simp only: results if_False)
        apply (subst sel_pair)
        apply (simp only: prod.case shown panel Some option.case append.simps append_assoc)
        done
      then show ?thesis by blast
    next
      case None
      have insights: "global_insights (series_sum lib) ?df =
          Inr (length (remdups (map FlatRow.Translator ?df)),
               series_sum lib (map Post_Downloads ?df)
                 (map Post_Downloads (drop_duplicates [] ?df)))"
        by (rule global_insights_nonempty [OF assms(1)])
      have "main srt lib (Content results) search_term choice =
          (?ui @ (panel @
             [st_write [Lit ''---''], st_write [Lit ''### Global Insights''],
              st_write [Lit ''**Total Translators**: '',
                Num (int (length (remdups (map FlatRow.Translator ?df))))],
              st_write [Lit ''**Total Downloads Across All Translators**: '',
                Num (series_sum lib (map Post_Downloads ?df)
                       (map Post_Downloads (drop_duplicates [] ?df)))],
              st_write [Lit ''#### Tips:'']]), None)"
        unfolding main_def load_results_simps Let_def prod.case sum.case assms(2)
        apply (simp only: results if_False)
        apply (subst sel_pair)
        apply (simp only: prod.case shown panel None option.case insights sum.case
            append.simps append_assoc)
        done
      then show ?thesis by blast
    qed
  qed
qed

lemma main_shows:
  assumes "prepare_data results \<noteq> []"
    and "translator_table srt (prepare_data results) = Inr table"
  shows "sidebar_dataframe table
           \<in> set (fst (main srt lib (Content results) search_term choice))"
    and "sidebar_selectbox
           (fst (selector (unicode lib) search_term (map TableRow.Translator table)))
           (snd (selector (unicode lib) search_term (map TableRow.Translator table)))
         \<in> set (fst (main srt lib (Content results) search_term choice))"
proof -
  from main_sidebar [OF assms, of lib search_term choice]
  obtain rest e where m: "main srt lib (Content results) search_term choice =
           ([set_page_config, st_title ''Trending Translators Dashboard'',
             sidebar_title ''Translator Selector'',
             sidebar_text_input ''Search for a Translator'',
             sidebar_selectbox
               (fst (selector (unicode lib) search_term (map TableRow.Translator table)))
               (snd (selector (unicode lib) search_term (map TableRow.Translator table))),
             sidebar_write ''### Translator List'',
             sidebar_dataframe table] @ rest, e)"
    by blast
  show "sidebar_dataframe table
           \<in> set (fst (main srt lib (Content results) search_term choice))"
    by (simp only: m fst_conv) simp
  show "sidebar_selectbox
           (fst (selector (unicode lib) search_term (map TableRow.Translator table)))
           (snd (selector (unicode lib) search_term (map TableRow.Translator table)))
         \<in> set (fst (main srt lib (Content results) search_term choice))"
    by (simp only: m fst_conv) simp
qed

section \<open>The loader and the empty input\<close>

text \<open>
  C4. When the input file does not exist, \<^verbatim>\<open>load_results\<close> raises nothing: it makes one
  call, the error notice, and returns the empty list. \<^verbatim>\<open>main\<close> then returns at once, so the
  notice is the last call made; given an empty list from a file that exists, \<^verbatim>\<open>main\<close>
  returns just the same, after the page title and nothing else.
\<close>

theorem missing_file_halts:
  "load_results Missing =
     ([st_error ''Final results file not found. Please run the algorithm first.''], Inr [])
   \<and> main srt lib Missing search_term choice =
       ([set_page_config, st_title ''Trending Translators Dashboard'',
         st_error ''Final results file not found. Please run the algorithm first.''], None)
   \<and> main srt lib (Content []) search_term choice =
       ([set_page_config, st_title ''Trending Translators Dashboard''], None)"
  by (simp only: load_results_simps main_missing main_empty simp_thms)

text \<open>
  C7, as the specification states it, fails: for the empty input array no global summary
  is reported. \<^verbatim>\<open>main\<close> returns at the guard of line 40, and the summary of lines 138 to
  141, applied to the flat table of the empty array, raises \<^verbatim>\<open>KeyError\<close> at the lookup of
  the column \<^verbatim>\<open>"Translator"\<close> in line 140, since that frame has no columns.
\<close>

theorem empty_input_summary_counterexample:
  "prepare_data [] = []
   \<and> global_insights column_sum (prepare_data []) \<noteq> Inr (0, 0)
   \<and> global_insights column_sum (prepare_data []) = Inl (KeyError ''Translator'')
   \<and> main sort_values installed (Content []) [] 0 =
       ([set_page_config, st_title ''Trending Translators Dashboard''], None)"
  by (simp add: prepare_data_Nil global_insights_def main_empty)

text \<open>
  C7, amended. Given an empty input array, the shaped flat table has zero rows, and \<^verbatim>\<open>main\<close>
  returns at the guard on the empty list after the page title: it computes and reports no
  global summary.
\<close>

theorem empty_input_halts:
  "prepare_data [] = []
   \<and> main srt lib (Content []) search_term choice =
       ([set_page_config, st_title ''Trending Translators Dashboard''], None)"
  by (simp only: prepare_data_Nil main_empty simp_thms)

section \<open>The leaderboard view\<close>

text \<open>
  C3, as the specification states it, fails for the empty input sequence: \<^verbatim>\<open>main\<close> returns
  before it builds a leaderboard, and the leaderboard code applied to the flat table of the
  empty sequence raises \<^verbatim>\<open>KeyError\<close> instead of yielding the empty leaderboard that
  the grouping describes.
\<close>

theorem leaderboard_empty_input_counterexample:
  "leaderboard_spec (prepare_data []) []
   \<and> translator_table sort_values (prepare_data []) \<noteq> Inr []
   \<and> translator_table sort_values (prepare_data []) = Inl (KeyError ''Translator'')
   \<and> main sort_values installed (Content []) [] 0 =
       ([set_page_config, st_title ''Trending Translators Dashboard''], None)"
  by (simp add: prepare_data_Nil translator_table_empty main_empty leaderboard_spec_def)

text \<open>
  C3, amended. For every input sequence whose flat table has at least one row, and for
  every sorting routine that meets the contract of \<^verbatim>\<open>sort_values\<close>, the leaderboard that
  \<^verbatim>\<open>main\<close> shows in the sidebar is the table that the specification describes: the flat rows
  grouped by translator name, the maxima of Rank and of Total Downloads per group, the
  groups in descending order of Total Downloads with ties in either order, and the display
  index \<open>1, ..., n\<close> in that order.
\<close>

theorem leaderboard_meets_spec:
  assumes "sort_values_spec srt" and "prepare_data results \<noteq> []"
  shows "\<exists>table. translator_table srt (prepare_data results) = Inr table
           \<and> leaderboard_spec (prepare_data results) table
           \<and> sidebar_dataframe table
               \<in> set (fst (main srt lib (Content results) search_term choice))"
proof -
  let ?table = "assign_Index (srt (map (group_max (prepare_data results))
      (group_keys (prepare_data results))))"
  have table: "translator_table srt (prepare_data results) = Inr ?table"
    by (rule translator_table_nonempty [OF assms(2)])
  have spec: "leaderboard_spec (prepare_data results) ?table"
    by (rule translator_table_meets_spec [OF assms])
  have "sidebar_dataframe ?table \<in> set (fst (main srt lib (Content results) search_term choice))"
    by (rule main_shows(1) [OF assms(2) table])
  with table spec show ?thesis by blast
qed

theorem leaderboard_meets_spec_witness:
  "sort_values_spec sort_values \<and> prepare_data shared_name \<noteq> []
   \<and> translator_table sort_values (prepare_data shared_name) =
       Inr [\<lparr>Index = 1, Rank = 3, Translator = ''B'', Total_Downloads = 100\<rparr>,
            \<lparr>Index = 2, Rank = 2, Translator = ''A'', Total_Downloads = 80\<rparr>]
   \<and> leaderboard_spec (prepare_data shared_name)
         [\<lparr>Index = 1, Rank = 3, Translator = ''B'', Total_Downloads = 100\<rparr>,
          \<lparr>Index = 2, Rank = 2, Translator = ''A'', Total_Downloads = 80\<rparr>]
   \<and> sidebar_dataframe
         [\<lparr>Index = 1, Rank = 3, Translator = ''B'', Total_Downloads = 100\<rparr>,
          \<lparr>Index = 2, Rank = 2, Translator = ''A'', Total_Downloads = 80\<rparr>]
       \<in> set (fst (main sort_values installed (Content shared_name) [] 0))"
proof -
  have ne: "prepare_data shared_name \<noteq> []"
    by (simp add: shared_name_rows)
  from leaderboard_meets_spec [OF sort_values_spec_sort_values ne, of installed "[]" 0]
  obtain table where "translator_table sort_values (prepare_data shared_name) = Inr table"
    and "leaderboard_spec (prepare_data shared_name) table"
    and "sidebar_dataframe table \<in> set (fst (main sort_values installed (Content shared_name) [] 0))"
    by blast
  then show ?thesis
    using ne sort_values_spec_sort_values by (simp add: shared_name_table)
qed

text \<open>
  C10. For every non-empty flat table the leaderboard has exactly one row per distinct
  translator name of the flat table, so its length is the number of distinct names; the
  row of a name holds the maxima over all flat rows of that name, whichever records they
  come from.
\<close>

theorem leaderboard_one_row_per_translator:
  assumes "sort_values_spec srt" and "df \<noteq> []"
  shows "\<exists>table. translator_table srt df = Inr table
           \<and> distinct (map TableRow.Translator table)
           \<and> set (map TableRow.Translator table) = set (map FlatRow.Translator df)
           \<and> length table = card (set (map FlatRow.Translator df))
           \<and> (\<forall>row \<in> set table.
                 TableRow.Rank row =
                   Max (FlatRow.Rank `
                          {r \<in> set df. FlatRow.Translator r = TableRow.Translator row})
               \<and> TableRow.Total_Downloads row =
                   Max (FlatRow.Total_Downloads `
                          {r \<in> set df. FlatRow.Translator r = TableRow.Translator row}))"
proof -
  let ?table = "assign_Index (srt (map (group_max df) (group_keys df)))"
  have spec: "leaderboard_spec df ?table"
    by (rule translator_table_meets_spec [OF assms])
  have len: "length ?table = card (set (map FlatRow.Translator df))"
    by (simp only: assign_Index_length sorted_groups(3) [OF assms(1)] length_map
        group_keys_length)
  show ?thesis
    using translator_table_nonempty [OF assms(2), of srt] spec len
    unfolding leaderboard_spec_def by blast
qed

theorem leaderboard_one_row_per_translator_witness:
  "sort_values_spec sort_values \<and> prepare_data shared_name \<noteq> []
   \<and> translator_table sort_values (prepare_data shared_name) =
       Inr [\<lparr>Index = 1, Rank = 3, Translator = ''B'', Total_Downloads = 100\<rparr>,
            \<lparr>Index = 2, Rank = 2, Translator = ''A'', Total_Downloads = 80\<rparr>]
   \<and> card (set (map FlatRow.Translator (prepare_data shared_name))) = 2"
proof -
  have ne: "prepare_data shared_name \<noteq> []"
    by (simp add: shared_name_rows)
  from leaderboard_one_row_per_translator [OF sort_values_spec_sort_values ne]
  obtain table where "translator_table sort_values (prepare_data shared_name) = Inr table"
    and "length table = card (set (map FlatRow.Translator (prepare_data shared_name)))"
    by blast
  then show ?thesis
    using ne sort_values_spec_sort_values by (auto simp add: shared_name_table)
qed

section \<open>The search box\<close>

text \<open>
  C5, as the specification states it, fails. The program compares the lower-cased term
  with the lower-cased name, and \<^verbatim>\<open>str.lower\<close> depends on the place of a letter in its
  string: the capital sigma alone becomes the small sigma, and at the end of the name
  \<open>U+0391 U+03A3\<close> it becomes the final sigma. The name contains the term as it stands,
  and so as a case-insensitive substring on any reading, yet it is not among the options.
\<close>

theorem selector_sigma_counterexample:
  "capital_sigma \<noteq> []
   \<and> str_in capital_sigma alpha_sigma
   \<and> contains_ignoring_case capital_sigma alpha_sigma
   \<and> lower unicode_fragment capital_sigma = [CHR 0xCF, CHR 0x83]
   \<and> lower unicode_fragment alpha_sigma = [CHR 0xCE, CHR 0xB1, CHR 0xCF, CHR 0x82]
   \<and> snd (selector unicode_fragment capital_sigma [alpha_sigma]) = []
   \<and> set (snd (selector unicode_fragment capital_sigma [alpha_sigma]))
       \<noteq> {t \<in> set [alpha_sigma]. contains_ignoring_case capital_sigma t}"
proof -
  have ne: "capital_sigma \<noteq> []"
    by (simp add: capital_sigma_def)
  have verbatim: "str_in capital_sigma alpha_sigma"
    by (simp add: capital_sigma_def alpha_sigma_def)
  have "alpha_sigma = [CHR 0xCE, CHR 0x91] @ capital_sigma @ []"
    by (simp add: capital_sigma_def alpha_sigma_def)
  moreover have "list_all2 same_letter capital_sigma capital_sigma"
    by (simp add: list_all2_same same_letter_def)
  ultimately have contains: "contains_ignoring_case capital_sigma alpha_sigma"
    unfolding contains_ignoring_case_def by blast
  have options: "snd (selector unicode_fragment capital_sigma [alpha_sigma]) = []"
    by (simp add: selector_def ne matching_translators_def sigma_lower)
  have "alpha_sigma \<in> {t \<in> set [alpha_sigma]. contains_ignoring_case capital_sigma t}"
    using contains by simp
  then have "set (snd (selector unicode_fragment capital_sigma [alpha_sigma]))
       \<noteq> {t \<in> set [alpha_sigma]. contains_ignoring_case capital_sigma t}"
    unfolding options by auto
  with ne verbatim contains options sigma_lower show ?thesis by simp
qed

text \<open>
  C5, amended. For a non-empty search term the options of the selector are the translator
  names whose lower-cased form contains the lower-cased term, in the order of the
  leaderboard; when the term and the names are ASCII strings these are exactly the names
  that contain the term as a case-insensitive substring. For the empty search term the
  options are the full list of translators. In \<^verbatim>\<open>main\<close>, on a flat table with at least one
  row, the selector is shown with these options, the translators being the names of the
  leaderboard, which are the names of the flat table.
\<close>

theorem selector_options:
  "(search_term \<noteq> [] \<longrightarrow>
      snd (selector u search_term translators) =
        filter (\<lambda>t. str_in (lower u search_term) (lower u t)) translators)
   \<and> (search_term \<noteq> [] \<and> is_ascii search_term \<and> (\<forall>t \<in> set translators. is_ascii t) \<longrightarrow>
        set (snd (selector u search_term translators)) =
          {t \<in> set translators. contains_ignoring_case search_term t})
   \<and> (search_term = [] \<longrightarrow> snd (selector u search_term translators) = translators)
   \<and> (sort_values_spec srt \<and> prepare_data results \<noteq> [] \<longrightarrow>
        (\<exists>table. translator_table srt (prepare_data results) = Inr table
           \<and> set (map TableRow.Translator table)
               = set (map FlatRow.Translator (prepare_data results))
           \<and> sidebar_selectbox
                (fst (selector (unicode lib) search_term (map TableRow.Translator table)))
                (snd (selector (unicode lib) search_term (map TableRow.Translator table)))
               \<in> set (fst (main srt lib (Content results) search_term choice))))"
proof (intro conjI impI)
  assume "search_term \<noteq> []"
  then show "snd (selector u search_term translators) =
        filter (\<lambda>t. str_in (lower u search_term) (lower u t)) translators"
    by (simp add: selector_def matching_translators_def)
next
  assume a: "search_term \<noteq> [] \<and> is_ascii search_term \<and> (\<forall>t \<in> set translators. is_ascii t)"
  then have "\<And>t. t \<in> set translators \<Longrightarrow>
      str_in (lower u search_term) (lower u t) \<longleftrightarrow> contains_ignoring_case search_term t"
    by (simp add: matches_iff)
  with a show "set (snd (selector u search_term translators)) =
        {t \<in> set translators. contains_ignoring_case search_term t}"
    by (auto simp add: selector_def matching_translators_def)
next
  assume "search_term = []"
  then show "snd (selector u search_term translators) = translators"
    by (simp add: selector_def)
next
  assume a: "sort_values_spec srt \<and> prepare_data results \<noteq> []"
  then have spec: "sort_values_spec srt" and ne: "prepare_data results \<noteq> []"
    by simp_all
  let ?table = "assign_Index (srt (map (group_max (prepare_data results))
      (group_keys (prepare_data results))))"
  have table: "translator_table srt (prepare_data results) = Inr ?table"
    by (rule translator_table_nonempty [OF ne])
  have "leaderboard_spec (prepare_data results) ?table"
    by (rule translator_table_meets_spec [OF spec ne])
  then have names: "set (map TableRow.Translator ?table)
      = set (map FlatRow.Translator (prepare_data results))"
    by (simp add: leaderboard_spec_def)
  have "sidebar_selectbox
          (fst (selector (unicode lib) search_term (map TableRow.Translator ?table)))
          (snd (selector (unicode lib) search_term (map TableRow.Translator ?table)))
        \<in> set (fst (main srt lib (Content results) search_term choice))"
    by (rule main_shows(2) [OF ne table])
  with table names
  show "\<exists>table. translator_table srt (prepare_data results) = Inr table
           \<and> set (map TableRow.Translator table)
               = set (map FlatRow.Translator (prepare_data results))
           \<and> sidebar_selectbox
                (fst (selector (unicode lib) search_term (map TableRow.Translator table)))
                (snd (selector (unicode lib) search_term (map TableRow.Translator table)))
               \<in> set (fst (main srt lib (Content results) search_term choice))"
    by blast
qed

theorem selector_options_witness:
  "''LI'' \<noteq> [] \<and> is_ascii ''LI'' \<and> list_all is_ascii [''Alice'', ''Bob'', ''alina'']
   \<and> snd (selector unicode_fragment ''LI'' [''Alice'', ''Bob'', ''alina''])
       = [''Alice'', ''alina'']
   \<and> {t \<in> set [''Alice'', ''Bob'', ''alina'']. contains_ignoring_case ''LI'' t}
       = {''Alice'', ''alina''}
   \<and> snd (selector unicode_fragment [] [''Alice'', ''Bob'', ''alina''])
       = [''Alice'', ''Bob'', ''alina'']
   \<and> sort_values_spec sort_values \<and> prepare_data shared_name \<noteq> []
   \<and> sidebar_selectbox ''Matching Translators'' [''B'']
       \<in> set (fst (main sort_values installed (Content shared_name) ''b'' 0))"
proof -
  note inst = selector_options [of "''LI''" unicode_fragment "[''Alice'', ''Bob'', ''alina'']"
      sort_values shared_name installed 0]
  have ascii: "is_ascii ''LI''" "list_all is_ascii [''Alice'', ''Bob'', ''alina'']"
    by (simp_all add: is_ascii_def)
  have eval: "snd (selector unicode_fragment ''LI'' [''Alice'', ''Bob'', ''alina''])
      = [''Alice'', ''alina'']"
    by (simp add: selector_def matching_translators_def lower_def is_ascii_def
        lower_char_def letters_def)
  have "set (snd (selector unicode_fragment ''LI'' [''Alice'', ''Bob'', ''alina''])) =
      {t \<in> set [''Alice'', ''Bob'', ''alina'']. contains_ignoring_case ''LI'' t}"
  proof (rule inst [THEN conjunct2, THEN conjunct1, THEN mp])
    show "''LI'' \<noteq> [] \<and> is_ascii ''LI''
        \<and> (\<forall>t \<in> set [''Alice'', ''Bob'', ''alina'']. is_ascii t)"
      by (simp add: is_ascii_def)
  qed
  then have 1: "{t \<in> set [''Alice'', ''Bob'', ''alina'']. contains_ignoring_case ''LI'' t}
      = {''Alice'', ''alina''}"
    by (simp only: eval) simp
  have 2: "snd (selector unicode_fragment [] [''Alice'', ''Bob'', ''alina''])
      = [''Alice'', ''Bob'', ''alina'']"
    using selector_options [of "[]" unicode_fragment "[''Alice'', ''Bob'', ''alina'']"]
    by simp
  have ne: "prepare_data shared_name \<noteq> []"
    by (simp add: shared_name_rows)
  from selector_options [of "''b''" unicode_fragment "[]" sort_values shared_name installed 0]
    sort_values_spec_sort_values ne
  obtain table where t: "translator_table sort_values (prepare_data shared_name) = Inr table"
    and shown: "sidebar_selectbox
           (fst (selector (unicode installed) ''b'' (map TableRow.Translator table)))
           (snd (selector (unicode installed) ''b'' (map TableRow.Translator table)))
         \<in> set (fst (main sort_values installed (Content shared_name) ''b'' 0))"
    by blast
  from t have "table =
      [\<lparr>Index = 1, Rank = 3, Translator = ''B'', Total_Downloads = 100\<rparr>,
       \<lparr>Index = 2, Rank = 2, Translator = ''A'', Total_Downloads = 80\<rparr>]"
    by (simp add: shared_name_table)
  then have "selector (unicode installed) ''b'' (map TableRow.Translator table)
      = (''Matching Translators'', [''B''])"
    by (simp add: selector_def matching_translators_def lower_def is_ascii_def
        lower_char_def letters_def)
  with shown have 3: "sidebar_selectbox ''Matching Translators'' [''B'']
       \<in> set (fst (main sort_values installed (Content shared_name) ''b'' 0))"
    by simp
  from ascii eval 1 2 3 ne sort_values_spec_sort_values show ?thesis by simp
qed

section \<open>The global summary\<close>



lemma same_pid_insights: "global_insights column_sum (prepare_data same_pid) = Inr (3, 3)"
  by (simp add: same_pid_rows global_insights_def column_sum_def int64_def wrap64_def)

lemma shared_post_insights: "global_insights column_sum (prepare_data shared_post) = Inr (2, 10)"
  by (simp add: shared_post_rows global_insights_def column_sum_def int64_def wrap64_def)


lemma flat_rows_int64:
  assumes "\<forall>R \<in> set results. \<forall>p \<in> set (posts R). int64 (PostRecord.downloads p)"
  shows "\<forall>r \<in> set (prepare_data results). int64 (Post_Downloads r)"
  using assms by (auto simp: set_prepare_data flat_row_sel)

lemma update_int64:
  assumes "\<forall>r \<in> set df. int64 (Post_Downloads r)" and "int64 v"
  shows "\<forall>r \<in> set (df[j := (df ! j)\<lparr>Post_Downloads := v\<rparr>]). int64 (Post_Downloads r)"
proof
  fix r
  assume "r \<in> set (df[j := (df ! j)\<lparr>Post_Downloads := v\<rparr>])"
  with set_update_subset_insert [of df j "(df ! j)\<lparr>Post_Downloads := v\<rparr>"]
  have "r = (df ! j)\<lparr>Post_Downloads := v\<rparr> \<or> r \<in> set df"
    by (simp only: subset_iff insert_iff)
  then show "int64 (Post_Downloads r)"
  proof
    assume "r = (df ! j)\<lparr>Post_Downloads := v\<rparr>"
    then show ?thesis using assms(2) by simp
  next
    assume "r \<in> set df"
    then show ?thesis using assms(1) by simp
  qed
qed

text \<open>
  C2, as the specification states it, fails. In the input \<open>same_pid\<close> the translators
  \<open>B\<close> and \<open>C\<close> each hold a post with the pid \<open>x\<close> and 7 downloads, but an earlier post of
  translator \<open>A\<close> holds the same pid with 1 download. The row kept for the pid is the first,
  so the total is \<open>3\<close>, the 2 downloads of the other pid and 1: the value 7 is not counted
  at all.
\<close>

theorem shared_pid_counterexample:
  "same_pid ! 1 \<in> set same_pid \<and> same_pid ! 2 \<in> set same_pid
   \<and> translator (same_pid ! 1) \<noteq> translator (same_pid ! 2)
   \<and> posts (same_pid ! 1) = [\<lparr>title = ''c'', downloads = 7, pid = PidStr ''x''\<rparr>]
   \<and> posts (same_pid ! 2) = [\<lparr>title = ''d'', downloads = 7, pid = PidStr ''x''\<rparr>]
   \<and> sum_list (map Post_Downloads
        (drop_duplicates []
           (filter (\<lambda>r. PID r \<noteq> PidStr ''x'') (prepare_data same_pid)))) = 2
   \<and> global_insights column_sum (prepare_data same_pid) = Inr (3, 3)
   \<and> global_insights column_sum (prepare_data same_pid) \<noteq> Inr (3, 7 + 2)"
proof -
  have "same_pid ! 1 \<in> set same_pid \<and> same_pid ! 2 \<in> set same_pid
      \<and> translator (same_pid ! 1) \<noteq> translator (same_pid ! 2)
      \<and> posts (same_pid ! 1) = [\<lparr>title = ''c'', downloads = 7, pid = PidStr ''x''\<rparr>]
      \<and> posts (same_pid ! 2) = [\<lparr>title = ''d'', downloads = 7, pid = PidStr ''x''\<rparr>]"
    by (simp add: same_pid_def)
  moreover have "sum_list (map Post_Downloads
        (drop_duplicates []
           (filter (\<lambda>r. PID r \<noteq> PidStr ''x'') (prepare_data same_pid)))) = 2"
    by (simp add: same_pid_rows)
  ultimately show ?thesis by (simp add: same_pid_insights)
qed

text \<open>
  C2, amended. The post-level downloads are summed over the flat rows that remain after
  the rows are deduplicated by pid. When two distinct translators each hold a post with
  one pid and the downloads \<open>D\<close>, and every post with that pid holds \<open>D\<close>, that pid stands
  in at least two rows of the flat table and in exactly one row of the deduplicated table,
  and the total is \<open>D\<close>, once, plus the total over the other pids. The downloads being
  int64 values, the sum is taken in int64 arithmetic, which wraps around.
\<close>

theorem shared_pid_counted_once:
  assumes "sum_spec sm"
    and "\<forall>R \<in> set results. \<forall>p \<in> set (posts R). int64 (PostRecord.downloads p)"
    and "R1 \<in> set results" and "R2 \<in> set results" and "translator R1 \<noteq> translator R2"
    and "p1 \<in> set (posts R1)" and "p2 \<in> set (posts R2)" and "pid p1 = pid p2"
    and "PostRecord.downloads p1 = D" and "PostRecord.downloads p2 = D"
    and "\<forall>R \<in> set results. \<forall>p \<in> set (posts R).
           pid p = pid p1 \<longrightarrow> PostRecord.downloads p = D"
  shows "2 \<le> length (filter (\<lambda>r. PID r = pid p1) (prepare_data results))
       \<and> length (filter (\<lambda>r. PID r = pid p1) (drop_duplicates [] (prepare_data results))) = 1
       \<and> global_insights sm (prepare_data results) =
           Inr (length (remdups (map FlatRow.Translator (prepare_data results))),
                wrap64 (D + sum_list (map Post_Downloads
                      (drop_duplicates []
                         (filter (\<lambda>r. PID r \<noteq> pid p1) (prepare_data results))))))"
proof -
  let ?df = "prepare_data results"
  let ?a = "flat_row R1 p1" and ?b = "flat_row R2 p2"
  let ?rest = "sum_list (map Post_Downloads
      (drop_duplicates [] (filter (\<lambda>r. PID r \<noteq> pid p1) ?df)))"
  have a: "?a \<in> set ?df" using assms(3,6) by (auto simp: set_prepare_data)
  have b: "?b \<in> set ?df" using assms(4,7) by (auto simp: set_prepare_data)
  have ab: "?a \<noteq> ?b"
  proof
    assume "?a = ?b"
    then have "FlatRow.Translator ?a = FlatRow.Translator ?b" by simp
    with assms(5) show False by (simp add: flat_row_sel)
  qed
  have two: "2 \<le> length (filter (\<lambda>r. PID r = pid p1) ?df)"
    using a b ab by (rule two_rows) (simp_all add: flat_row_sel assms(8))
  have "pid p1 \<in> PID ` set (drop_duplicates [] ?df)"
    using a drop_duplicates_PIDs [of "[]" ?df] by (force simp: flat_row_sel)
  with drop_duplicates_distinct
  have one: "length (filter (\<lambda>r. PID r = pid p1) (drop_duplicates [] ?df)) = 1"
    by (rule one_survivor)
  have ne: "?df \<noteq> []" using a by auto
  have range: "\<forall>r \<in> set ?df. int64 (Post_Downloads r)"
    by (rule flat_rows_int64 [OF assms(2)])
  have same: "\<forall>x \<in> set ?df. PID x = PID ?a \<longrightarrow> Post_Downloads x = D"
    using assms(11) by (auto simp: set_prepare_data flat_row_sel)
  have "sum_list (map Post_Downloads (drop_duplicates [] ?df)) =
      D + sum_list (map Post_Downloads
            (drop_duplicates [] (filter (\<lambda>x. PID x \<noteq> PID ?a) ?df)))"
    by (rule same_value_total [OF a same])
  then have sum: "sum_list (map Post_Downloads (drop_duplicates [] ?df)) = D + ?rest"
    by (simp only: flat_row_sel)
  have total: "global_insights sm ?df =
      Inr (length (remdups (map FlatRow.Translator ?df)), wrap64 (D + ?rest))"
    by (simp only: global_insights_int64 [OF assms(1) ne range] sum)
  from two one total show ?thesis by (intro conjI)
qed

theorem shared_pid_counted_once_witness:
  "sum_spec column_sum
   \<and> shared_post ! 0 \<in> set shared_post \<and> shared_post ! 1 \<in> set shared_post
   \<and> translator (shared_post ! 0) \<noteq> translator (shared_post ! 1)
   \<and> posts (shared_post ! 0) ! 0 \<in> set (posts (shared_post ! 0))
   \<and> posts (shared_post ! 1) ! 0 \<in> set (posts (shared_post ! 1))
   \<and> pid (posts (shared_post ! 0) ! 0) = pid (posts (shared_post ! 1) ! 0)
   \<and> PostRecord.downloads (posts (shared_post ! 0) ! 0) = 7
   \<and> PostRecord.downloads (posts (shared_post ! 1) ! 0) = 7
   \<and> length (filter (\<lambda>r. PID r = PidStr ''x'') (prepare_data shared_post)) = 2
   \<and> length (filter (\<lambda>r. PID r = PidStr ''x'')
                (drop_duplicates [] (prepare_data shared_post))) = 1
   \<and> global_insights column_sum (prepare_data shared_post) = Inr (2, 10)"
proof -
  have h: "shared_post ! 0 \<in> set shared_post" "shared_post ! 1 \<in> set shared_post"
    "translator (shared_post ! 0) \<noteq> translator (shared_post ! 1)"
    "posts (shared_post ! 0) ! 0 \<in> set (posts (shared_post ! 0))"
    "posts (shared_post ! 1) ! 0 \<in> set (posts (shared_post ! 1))"
    "pid (posts (shared_post ! 0) ! 0) = pid (posts (shared_post ! 1) ! 0)"
    "PostRecord.downloads (posts (shared_post ! 0) ! 0) = 7"
    "PostRecord.downloads (posts (shared_post ! 1) ! 0) = 7"
    by (simp_all add: shared_post_def)
  have range: "\<forall>R \<in> set shared_post. \<forall>p \<in> set (posts R). int64 (PostRecord.downloads p)"
    by (simp add: shared_post_def int64_def)
  have all: "\<forall>R \<in> set shared_post. \<forall>p \<in> set (posts R).
       pid p = pid (posts (shared_post ! 0) ! 0) \<longrightarrow> PostRecord.downloads p = 7"
    by (simp add: shared_post_def)
  have x: "pid (posts (shared_post ! 0) ! 0) = PidStr ''x''"
    by (simp add: shared_post_def)
  have two: "length (filter (\<lambda>r. PID r = PidStr ''x'') (prepare_data shared_post)) = 2"
    by (simp add: shared_post_rows)
  note inst = shared_pid_counted_once [OF column_sum_spec range h all, unfolded x]
  from inst have one: "length (filter (\<lambda>r. PID r = PidStr ''x'')
      (drop_duplicates [] (prepare_data shared_post))) = 1"
    by (rule conjunct1 [OF conjunct2])
  from column_sum_spec h two one shared_post_insights show ?thesis
    by (simp only: simp_thms)
qed

text \<open>
  C9. When two rows of the flat table share a pid, the global total takes the downloads of
  the first row with that pid: with \<open>i\<close> the first such row and \<open>j\<close> a later one, the total is
  the downloads of row \<open>i\<close> plus the total over the other pids, and it stays the same whatever
  value \<open>v\<close> the downloads of row \<open>j\<close> are replaced by. The downloads, \<open>v\<close> among them, are
  int64 values, and the sum is taken in int64 arithmetic, which wraps around.
\<close>

theorem first_occurrence_wins:
  assumes "sum_spec sm"
    and "\<forall>r \<in> set df. int64 (Post_Downloads r)" and "int64 v"
    and "i < j" and "j < length df" and "PID (df ! i) = PID (df ! j)"
    and "\<forall>k<i. PID (df ! k) \<noteq> PID (df ! i)"
  shows "global_insights sm df =
           Inr (length (remdups (map FlatRow.Translator df)),
                wrap64 (Post_Downloads (df ! i) +
                  sum_list (map Post_Downloads
                    (drop_duplicates [] (filter (\<lambda>r. PID r \<noteq> PID (df ! i)) df)))))
       \<and> global_insights sm (df[j := (df ! j)\<lparr>Post_Downloads := v\<rparr>]) = global_insights sm df"
proof -
  let ?df' = "df[j := (df ! j)\<lparr>Post_Downloads := v\<rparr>]"
  have i: "i < length df" using assms(4,5) by simp
  have ne: "df \<noteq> []" using i by auto
  have ne': "?df' \<noteq> []" using i by auto
  have range': "\<forall>r \<in> set ?df'. int64 (Post_Downloads r)"
    by (rule update_int64 [OF assms(2,3)])
  have sum: "sum_list (map Post_Downloads (drop_duplicates [] df)) =
      Post_Downloads (df ! i) +
      sum_list (map Post_Downloads
        (drop_duplicates [] (filter (\<lambda>r. PID r \<noteq> PID (df ! i)) df)))"
    by (rule first_row_total [OF i assms(7)])
  have total: "global_insights sm df =
           Inr (length (remdups (map FlatRow.Translator df)),
                wrap64 (Post_Downloads (df ! i) +
                  sum_list (map Post_Downloads
                    (drop_duplicates [] (filter (\<lambda>r. PID r \<noteq> PID (df ! i)) df)))))"
    by (simp only: global_insights_int64 [OF assms(1) ne assms(2)] sum)
  have i': "i < length ?df'" using i by simp
  have same_i: "?df' ! i = df ! i" using assms(4) by simp
  have first': "\<forall>k<i. PID (?df' ! k) \<noteq> PID (?df' ! i)"
    using assms(4,7) by simp
  have names: "map FlatRow.Translator ?df' = map FlatRow.Translator df"
    using assms(5) by (simp add: map_update list_update_same_conv)
  have others: "filter (\<lambda>r. PID r \<noteq> PID (df ! i)) ?df'
      = filter (\<lambda>r. PID r \<noteq> PID (df ! i)) df"
    using assms(5,6) by (intro filter_update_out) simp_all
  have sum': "sum_list (map Post_Downloads (drop_duplicates [] ?df')) =
      Post_Downloads (?df' ! i) +
      sum_list (map Post_Downloads
        (drop_duplicates [] (filter (\<lambda>r. PID r \<noteq> PID (?df' ! i)) ?df')))"
    by (rule first_row_total [OF i' first'])
  have "global_insights sm ?df' =
           Inr (length (remdups (map FlatRow.Translator ?df')),
                wrap64 (Post_Downloads (?df' ! i) +
                  sum_list (map Post_Downloads
                    (drop_duplicates [] (filter (\<lambda>r. PID r \<noteq> PID (?df' ! i)) ?df')))))"
    by (simp only: global_insights_int64 [OF assms(1) ne' range'] sum')
  then have "global_insights sm ?df' = global_insights sm df"
    by (simp only: same_i names others total)
  with total show ?thesis by (rule conjI)
qed

theorem first_occurrence_wins_witness:
  "sum_spec column_sum
   \<and> list_all (\<lambda>r. int64 (Post_Downloads r)) (prepare_data same_pid) \<and> int64 1000
   \<and> (1::nat) < 2 \<and> 2 < length (prepare_data same_pid)
   \<and> PID (prepare_data same_pid ! 1) = PID (prepare_data same_pid ! 2)
   \<and> PID (prepare_data same_pid ! 0) \<noteq> PID (prepare_data same_pid ! 1)
   \<and> Post_Downloads (prepare_data same_pid ! 1) = 1
   \<and> Post_Downloads (prepare_data same_pid ! 2) = 7
   \<and> global_insights column_sum (prepare_data same_pid) = Inr (3, 3)
   \<and> global_insights column_sum
        ((prepare_data same_pid)[2 := (prepare_data same_pid ! 2)\<lparr>Post_Downloads := 1000\<rparr>])
       = Inr (3, 3)"
proof -
  have range: "\<forall>r \<in> set (prepare_data same_pid). int64 (Post_Downloads r)"
    by (simp add: same_pid_rows int64_def)
  have v: "int64 1000"
    by (simp add: int64_def)
  have h: "(1::nat) < 2" "2 < length (prepare_data same_pid)"
    "PID (prepare_data same_pid ! 1) = PID (prepare_data same_pid ! 2)"
    "\<forall>k<1. PID (prepare_data same_pid ! k) \<noteq> PID (prepare_data same_pid ! 1)"
    by (simp_all add: same_pid_rows)
  have vals: "PID (prepare_data same_pid ! 0) \<noteq> PID (prepare_data same_pid ! 1)"
    "Post_Downloads (prepare_data same_pid ! 1) = 1"
    "Post_Downloads (prepare_data same_pid ! 2) = 7"
    by (simp_all add: same_pid_rows)
  from first_occurrence_wins [OF column_sum_spec range v h]
  have "global_insights column_sum
        ((prepare_data same_pid)[2 := (prepare_data same_pid ! 2)\<lparr>Post_Downloads := 1000\<rparr>])
       = global_insights column_sum (prepare_data same_pid)"
    by (rule conjunct2)
  then have "global_insights column_sum
        ((prepare_data same_pid)[2 := (prepare_data same_pid ! 2)\<lparr>Post_Downloads := 1000\<rparr>])
       = Inr (3, 3)"
    by (simp only: same_pid_insights)
  with column_sum_spec range v h(1,2,3) vals same_pid_insights show ?thesis
    by (simp add: list_all_iff)
qed




end
